theory Spec2Isabelle
  imports Main "HOL-Library.Sublist"
begin

section \<open>Strings and POSIX paths as the program uses them\<close>

text \<open>
  Python strings are modelled as \<^typ>\<open>string\<close>, one \<^typ>\<open>char\<close> per code point (code
  points below 256). The functions of this section are the string methods and the
  \<^verbatim>\<open>os.path\<close> functions that \<^verbatim>\<open>main.py\<close> calls, with \<^verbatim>\<open>os.path\<close> read as
  \<^verbatim>\<open>posixpath\<close> (separator \<^verbatim>\<open>/\<close>), each written after its library source.
\<close>

definition startswith :: "string \<Rightarrow> string \<Rightarrow> bool" where
  "startswith s p = (take (length p) s = p)"

definition endswith :: "string \<Rightarrow> string \<Rightarrow> bool" where
  "endswith s p = (drop (length s - length p) s = p)"

text \<open>\<^verbatim>\<open>s.split(c)\<close> for a one-character separator: never an empty list.\<close>

fun split_on :: "char \<Rightarrow> string \<Rightarrow> string list" where
  "split_on c [] = [[]]"
| "split_on c (x # xs) =
     (if x = c then [] # split_on c xs
      else (case split_on c xs of [] \<Rightarrow> [[x]] | y # ys \<Rightarrow> (x # y) # ys))"

text \<open>\<^verbatim>\<open>c.join(parts)\<close>.\<close>

fun join_with :: "char \<Rightarrow> string list \<Rightarrow> string" where
  "join_with c [] = []"
| "join_with c [p] = p"
| "join_with c (p # q # ps) = p @ c # join_with c (q # ps)"

text \<open>\<^verbatim>\<open>s.replace("..", "_")\<close>: the occurrences are found left to right and do not overlap.\<close>

fun replace_dotdot :: "string \<Rightarrow> string" where
  "replace_dotdot (a # b # s) =
     (if a = CHR ''.'' \<and> b = CHR ''.'' then CHR ''_'' # replace_dotdot s
      else a # replace_dotdot (b # s))"
| "replace_dotdot s = s"

text \<open>\<^verbatim>\<open>str.isspace\<close> on one character, and \<^verbatim>\<open>s.strip()\<close>.\<close>

definition py_isspace :: "char \<Rightarrow> bool" where
  "py_isspace c =
     (let n = (of_char c :: nat)
      in (9 \<le> n \<and> n \<le> 13) \<or> (28 \<le> n \<and> n \<le> 32) \<or> n = 133 \<or> n = 160)"

definition strip :: "string \<Rightarrow> string" where
  "strip s = rev (dropWhile py_isspace (rev (dropWhile py_isspace s)))"

text \<open>\<^verbatim>\<open>str.lower\<close> on one character and on a string.\<close>

definition lower_char :: "char \<Rightarrow> char" where
  "lower_char c =
     (let n = (of_char c :: nat)
      in if (65 \<le> n \<and> n \<le> 90) \<or> (192 \<le> n \<and> n \<le> 222 \<and> n \<noteq> 215)
         then char_of (n + 32) else c)"

definition lower :: "string \<Rightarrow> string" where
  "lower s = map lower_char s"

text \<open>\<^verbatim>\<open>posixpath.join(a, b)\<close>: an absolute \<open>b\<close> discards \<open>a\<close>.\<close>

definition posix_join :: "string \<Rightarrow> string \<Rightarrow> string" where
  "posix_join a b =
     (if startswith b ''/'' then b
      else if a = [] \<or> endswith a ''/'' then a @ b
      else a @ ''/'' @ b)"

text \<open>\<^verbatim>\<open>posixpath.basename\<close> and \<^verbatim>\<open>posixpath.dirname\<close>: both cut after the last separator.\<close>

definition posix_basename :: "string \<Rightarrow> string" where
  "posix_basename p = rev (takeWhile (\<lambda>c. c \<noteq> CHR ''/'') (rev p))"

definition posix_dirname :: "string \<Rightarrow> string" where
  "posix_dirname p =
     (let head = rev (dropWhile (\<lambda>c. c \<noteq> CHR ''/'') (rev p))
      in if head \<noteq> [] \<and> head \<noteq> replicate (length head) CHR ''/''
         then rev (dropWhile (\<lambda>c. c = CHR ''/'') (rev head))
         else head)"

text \<open>
  \<^verbatim>\<open>posixpath.normpath\<close>. The loop over the components keeps the list \<open>new_comps\<close>;
  \<open>normpath_step\<close> is one iteration.
\<close>

definition normpath_step :: "nat \<Rightarrow> string list \<Rightarrow> string \<Rightarrow> string list" where
  "normpath_step initial_slashes new_comps seg =
     (if seg = [] \<or> seg = ''.'' then new_comps
      else if seg \<noteq> ''..'' \<or> (initial_slashes = 0 \<and> new_comps = [])
              \<or> (new_comps \<noteq> [] \<and> last new_comps = ''..'')
        then new_comps @ [seg]
      else if new_comps \<noteq> [] then butlast new_comps
      else new_comps)"

definition normpath :: "string \<Rightarrow> string" where
  "normpath p =
     (if p = [] then ''.''
      else
        let initial_slashes =
              (if startswith p ''/''
               then (if startswith p ''//'' \<and> \<not> startswith p ''///'' then 2 else 1)
               else (0::nat));
            comps = foldl (normpath_step initial_slashes) [] (split_on CHR ''/'' p);
            q = replicate initial_slashes CHR ''/'' @ join_with CHR ''/'' comps
        in if q = [] then ''.'' else q)"

section \<open>Exceptions and the URL parser\<close>

datatype exn =
    ValueError
  | FileExistsError
  | NotADirectoryError
  | IsADirectoryError
  | FileNotFoundError
  | HTTPError nat
  | RequestException string
  | ParseError string

text \<open>The fields of the result of \<^verbatim>\<open>urllib.parse.urlparse\<close>.\<close>

record parse_result =
  scheme :: string
  netloc :: string
  path :: string
  params :: string
  query :: string
  fragment :: string

text \<open>
  \<^verbatim>\<open>urlparse\<close> is library code. The program's functions take it as the field \<open>urlparse\<close>
  of the record of collaborators below, so what is proved about them holds for every
  parser. \<open>py_urlparse\<close> is a model of CPython's \<^verbatim>\<open>urlparse\<close>, used to evaluate the
  program on concrete URLs. Its parameter \<open>netloc_ok\<close> stands for the two validations the
  library delegates (the address syntax of a bracketed host, and the NFKC check of a
  non-ASCII authority); it is consulted only for an authority with both brackets or with
  a non-ASCII character.
\<close>

definition scheme_char :: "char \<Rightarrow> bool" where
  "scheme_char c =
     (c \<in> set (''abcdefghijklmnopqrstuvwxyz'' @ ''ABCDEFGHIJKLMNOPQRSTUVWXYZ''
               @ ''0123456789'' @ ''+-.''))"

definition ascii_alpha :: "char \<Rightarrow> bool" where
  "ascii_alpha c =
     (c \<in> set (''abcdefghijklmnopqrstuvwxyz'' @ ''ABCDEFGHIJKLMNOPQRSTUVWXYZ''))"

definition uses_params :: "string list" where
  "uses_params = ['''', ''ftp'', ''hdl'', ''prospero'', ''http'', ''imap'', ''https'',
                  ''shttp'', ''rtsp'', ''rtspu'', ''sip'', ''sips'', ''mms'', ''sftp'',
                  ''tel'']"

text \<open>\<^verbatim>\<open>s.split(c, 1)\<close> when \<open>c\<close> occurs in \<open>s\<close>: the text before and after its first occurrence.\<close>

definition split_first :: "char \<Rightarrow> string \<Rightarrow> string \<times> string" where
  "split_first c s = (takeWhile (\<lambda>x. x \<noteq> c) s, drop 1 (dropWhile (\<lambda>x. x \<noteq> c) s))"

definition splitparams :: "string \<Rightarrow> string \<times> string" where
  "splitparams url =
     (if CHR ''/'' \<in> set url then
        (let tl_part = rev (takeWhile (\<lambda>c. c \<noteq> CHR ''/'') (rev url));
             hd_part = take (length url - length tl_part) url
         in if CHR '';'' \<in> set tl_part
            then (hd_part @ fst (split_first CHR '';'' tl_part),
                  snd (split_first CHR '';'' tl_part))
            else (url, []))
      else split_first CHR '';'' url)"

definition py_urlparse :: "(string \<Rightarrow> bool) \<Rightarrow> string \<Rightarrow> exn + parse_result" where
  "py_urlparse netloc_ok url0 =
     (let url1 = dropWhile (\<lambda>c. (of_char c :: nat) \<le> 32) url0;
          url2 = filter (\<lambda>c. c \<noteq> CHR 0x09 \<and> c \<noteq> CHR 0x0D \<and> c \<noteq> CHR 0x0A) url1;
          pre = takeWhile (\<lambda>c. c \<noteq> CHR '':'') url2;
          (sch, url3) =
             (if CHR '':'' \<in> set url2 \<and> pre \<noteq> [] \<and> ascii_alpha (hd pre) \<and> list_all scheme_char pre
              then (lower pre, drop (length pre + 1) url2)
              else ([], url2));
          is_delim = (\<lambda>c. c = CHR ''/'' \<or> c = CHR ''?'' \<or> c = CHR ''#'');
          (nl, url4) =
             (if take 2 url3 = ''//''
              then (takeWhile (\<lambda>c. \<not> is_delim c) (drop 2 url3),
                    dropWhile (\<lambda>c. \<not> is_delim c) (drop 2 url3))
              else ([], url3));
          lb = (CHR ''['' \<in> set nl);
          rb = (CHR '']'' \<in> set nl)
      in if (lb \<and> \<not> rb) \<or> (rb \<and> \<not> lb) then Inl ValueError
         else if ((lb \<and> rb) \<or> (\<exists>c \<in> set nl. (of_char c :: nat) \<ge> 128)) \<and> \<not> netloc_ok nl
           then Inl ValueError
         else
           let (url5, frag) = (if CHR ''#'' \<in> set url4 then split_first CHR ''#'' url4 else (url4, []));
               (url6, qry) = (if CHR ''?'' \<in> set url5 then split_first CHR ''?'' url5 else (url5, []));
               (url7, prm) = (if sch \<in> set uses_params \<and> CHR '';'' \<in> set url6
                              then splitparams url6 else (url6, []))
           in Inr \<lparr>scheme = sch, netloc = nl, path = url7, params = prm,
                   query = qry, fragment = frag\<rparr>)"

section \<open>Collaborators\<close>

text \<open>The response of \<^verbatim>\<open>requests.get\<close>: its status code and its body.\<close>

record response =
  status_code :: nat
  content :: string

text \<open>
  \<^verbatim>\<open>Response.raise_for_status\<close> of the requests library: it raises for a status from
  400 to 599 and for no other status.
\<close>

definition raise_for_status :: "response \<Rightarrow> exn option" where
  "raise_for_status resp =
     (if 400 \<le> status_code resp \<and> status_code resp < 600
      then Some (HTTPError (status_code resp)) else None)"

text \<open>
  A parsed JSON document (\<^verbatim>\<open>json.load\<close>): an object is its list of key-value pairs, in
  the order of the dictionary, with distinct keys. A number is kept as its literal; the
  program never looks at it.
\<close>

datatype json =
    JNull
  | JBool bool
  | JNumber string
  | JString string
  | JList "json list"
  | JDict "(string \<times> json) list"

text \<open>
  An element of a parsed XML document (\<^verbatim>\<open>xml.etree.ElementTree\<close>): its tag, its text
  (\<^verbatim>\<open>None\<close> when absent) and its children. The tag of an element is a string, with a
  namespace written \<^verbatim>\<open>{uri}local\<close>; \<open>TagOther\<close> is a tag that is not a string (a
  comment or a processing instruction).
\<close>

datatype xml_tag = TagName string | TagOther

datatype xml = Element (elem_tag: xml_tag) (elem_text: "string option") (elem_children: "xml list")

text \<open>
  What \<^verbatim>\<open>csv.DictReader\<close> gives for a file: the field names (\<^verbatim>\<open>None\<close> for an empty
  file) and the rows, each a dictionary from field name to cell.
\<close>

record csv_table =
  fieldnames :: "string list option"
  csv_rows :: "(string \<times> string) list list"

text \<open>
  Everything the program reads from outside: the URL parser, the HTTP GET of
  \<^verbatim>\<open>requests\<close> (an exception or a response), the input files as their readers present
  them (\<^verbatim>\<open>None\<close> where \<^verbatim>\<open>os.path.isfile\<close> is false), standard input, and the XML
  parser.
\<close>

record world =
  urlparse :: "string \<Rightarrow> exn + parse_result"
  http_get :: "string \<Rightarrow> exn + response"
  text_file :: "string \<Rightarrow> string list option"
  stdin_lines :: "string list"
  csv_file :: "string \<Rightarrow> csv_table option"
  json_file :: "string \<Rightarrow> (exn + json) option"
  binary_file :: "string \<Rightarrow> (exn + string) option"
  parse_xml :: "string \<Rightarrow> exn + xml"

section \<open>URL validation and path resolution\<close>

text \<open>\<^verbatim>\<open>is_valid_url\<close>: an exception of the parser is caught and gives \<^verbatim>\<open>False\<close>.\<close>

definition is_valid_url :: "world \<Rightarrow> string \<Rightarrow> bool" where
  "is_valid_url w url =
     (case urlparse w url of
        Inl e \<Rightarrow> False
      | Inr p \<Rightarrow> scheme p \<in> set [''http'', ''https''] \<and> netloc p \<noteq> [])"

text \<open>\<^verbatim>\<open>resolve_filepath\<close>: an exception of the parser propagates (\<open>Inl\<close>).\<close>

definition resolve_filepath :: "world \<Rightarrow> string \<Rightarrow> string \<Rightarrow> bool \<Rightarrow> exn + string" where
  "resolve_filepath w url out_folder preserve_path =
     (case urlparse w url of
        Inl e \<Rightarrow> Inl e
      | Inr parsed \<Rightarrow>
          if preserve_path then
            (let path0 = dropWhile (\<lambda>c. c = CHR ''/'') (path parsed);
                 path1 = (if path0 = [] \<or> endswith path0 ''/''
                          then posix_join path0 ''downloaded_file'' else path0);
                 safe_path0 = normpath path1;
                 safe_path = (if startswith safe_path0 ''..''
                              then replace_dotdot safe_path0 else safe_path0)
             in Inr (posix_join out_folder safe_path))
          else
            (let filename = (if posix_basename (path parsed) \<noteq> []
                             then posix_basename (path parsed) else ''downloaded_file'')
             in Inr (posix_join out_folder filename)))"

section \<open>What the program prints and requests\<close>

text \<open>
  One constructor per \<^verbatim>\<open>print\<close> of \<^verbatim>\<open>main.py\<close>, and \<open>HttpGet\<close> for a call of
  \<^verbatim>\<open>requests.get\<close>. The trace of a run is the list of these events in order.
\<close>

datatype event =
    IgnoredInvalidUrl string
  | UrlFileNotFound string
  | CsvFileNotFound string
  | CsvColumnNotFound string string "string list option"
  | JsonFileNotFound string
  | JsonParseFailed string exn
  | SitemapNotFound string
  | SitemapFailed string exn
  | NoUrlsProvided
  | Downloading nat int
  | AllCompleted
  | PrintSkip string
  | PrintGet string
  | PrintSaved string
  | PrintError string exn
  | HttpGet string

section \<open>Source extractors\<close>

text \<open>
  Each loader returns its set of URLs and the events it caused. A candidate is kept when
  it is not empty and valid, as in the source's comprehensions and loops. The line file
  and the CSV file are taken as read successfully: a file that cannot be decoded makes
  the source raise out of \<^verbatim>\<open>collect_urls\<close>, and then there is no result set.
\<close>

definition load_from_file_lines :: "world \<Rightarrow> string \<Rightarrow> string set \<times> event list" where
  "load_from_file_lines w p =
     (case text_file w p of
        None \<Rightarrow> ({}, [UrlFileNotFound p])
      | Some lines \<Rightarrow>
          (set (filter (\<lambda>u. u \<noteq> [] \<and> is_valid_url w u) (map strip lines)), []))"

definition load_from_stdin :: "world \<Rightarrow> string set" where
  "load_from_stdin w =
     set (filter (\<lambda>u. u \<noteq> [] \<and> is_valid_url w u) (map strip (stdin_lines w)))"

text \<open>\<^verbatim>\<open>(row.get(column) or "").strip()\<close>: a missing cell counts as the empty string.\<close>

definition csv_cell :: "(string \<times> string) list \<Rightarrow> string \<Rightarrow> string" where
  "csv_cell row column = strip (case map_of row column of None \<Rightarrow> [] | Some v \<Rightarrow> v)"

definition load_from_csv :: "world \<Rightarrow> string \<Rightarrow> string \<Rightarrow> string set \<times> event list" where
  "load_from_csv w p column =
     (case csv_file w p of
        None \<Rightarrow> ({}, [CsvFileNotFound p])
      | Some t \<Rightarrow>
          if column \<notin> set (case fieldnames t of None \<Rightarrow> [] | Some fs \<Rightarrow> fs)
          then ({}, [CsvColumnNotFound column p (fieldnames t)])
          else (fold (\<lambda>row urls. let u = csv_cell row column
                                   in if u \<noteq> [] \<and> is_valid_url w u then insert u urls else urls)
                     (csv_rows t) {}, []))"

text \<open>\<^verbatim>\<open>_get_by_keypath\<close>: \<open>None\<close> as soon as a part is not a key of a dictionary.\<close>

fun get_by_parts :: "json \<Rightarrow> string list \<Rightarrow> json option" where
  "get_by_parts cur [] = Some cur"
| "get_by_parts cur (part # parts) =
     (case cur of
        JDict kvs \<Rightarrow>
          (case map_of kvs part of
             Some v \<Rightarrow> get_by_parts v parts
           | None \<Rightarrow> None)
      | _ \<Rightarrow> None)"

definition get_by_keypath :: "json \<Rightarrow> string \<Rightarrow> json option" where
  "get_by_keypath obj keypath = get_by_parts obj (split_on CHR ''.'' keypath)"

text \<open>\<^verbatim>\<open>_collect_urls_any\<close>: the set \<open>acc\<close> is mutated in the source and threaded here.\<close>

fun collect_urls_any :: "world \<Rightarrow> json \<Rightarrow> string set \<Rightarrow> string set" where
  "collect_urls_any w (JString s) acc = (if is_valid_url w s then insert s acc else acc)"
| "collect_urls_any w (JList vs) acc = fold (\<lambda>v. collect_urls_any w v) vs acc"
| "collect_urls_any w (JDict kvs) acc = fold (\<lambda>kv. collect_urls_any w (snd kv)) kvs acc"
| "collect_urls_any w JNull acc = acc"
| "collect_urls_any w (JBool b) acc = acc"
| "collect_urls_any w (JNumber n) acc = acc"

definition load_from_json :: "world \<Rightarrow> string \<Rightarrow> string option \<Rightarrow> string set \<times> event list" where
  "load_from_json w p key =
     (case json_file w p of
        None \<Rightarrow> ({}, [JsonFileNotFound p])
      | Some (Inl e) \<Rightarrow> ({}, [JsonParseFailed p e])
      | Some (Inr data) \<Rightarrow>
          (case key of
             Some k \<Rightarrow>
               if k \<noteq> [] then
                 (case get_by_keypath data k of
                    Some (JList vs) \<Rightarrow>
                      (fold (\<lambda>v urls. case v of
                                         JString s \<Rightarrow> if is_valid_url w s then insert s urls else urls
                                       | _ \<Rightarrow> urls) vs {}, [])
                  | Some (JString s) \<Rightarrow> ((if is_valid_url w s then {s} else {}), [])
                  | _ \<Rightarrow> ({}, []))
               else (collect_urls_any w data {}, [])
           | None \<Rightarrow> (collect_urls_any w data {}, [])))"

text \<open>\<^verbatim>\<open>root.iter()\<close>: the element itself, then its descendants, in document order.\<close>

fun iter :: "xml \<Rightarrow> xml list" where
  "iter (Element t x cs) = Element t x cs # concat (map iter cs)"

text \<open>The body of the loop over \<^verbatim>\<open>root.iter()\<close> in \<^verbatim>\<open>load_from_sitemap\<close>.\<close>

definition sitemap_visit :: "world \<Rightarrow> xml \<Rightarrow> string set \<Rightarrow> string set" where
  "sitemap_visit w elem urls =
     (case elem_tag elem of
        TagName t \<Rightarrow>
          if endswith (lower t) ''loc'' then
            (case elem_text elem of
               Some txt \<Rightarrow>
                 if txt \<noteq> [] then
                   (let u = strip txt in if is_valid_url w u then insert u urls else urls)
                 else urls
             | None \<Rightarrow> urls)
          else urls
      | TagOther \<Rightarrow> urls)"

definition sitemap_parse :: "world \<Rightarrow> string \<Rightarrow> string \<Rightarrow> event list \<Rightarrow> string set \<times> event list" where
  "sitemap_parse w source body evs =
     (case parse_xml w body of
        Inl e \<Rightarrow> ({}, evs @ [SitemapFailed source e])
      | Inr root \<Rightarrow> (fold (sitemap_visit w) (iter root) {}, evs))"

definition load_from_sitemap :: "world \<Rightarrow> string \<Rightarrow> string set \<times> event list" where
  "load_from_sitemap w source =
     (if is_valid_url w source then
        (case http_get w source of
           Inl e \<Rightarrow> ({}, [HttpGet source, SitemapFailed source e])
         | Inr resp \<Rightarrow>
             (case raise_for_status resp of
                Some e \<Rightarrow> ({}, [HttpGet source, SitemapFailed source e])
              | None \<Rightarrow> sitemap_parse w source (content resp) [HttpGet source]))
      else
        (case binary_file w source of
           None \<Rightarrow> ({}, [SitemapNotFound source])
         | Some (Inl e) \<Rightarrow> ({}, [SitemapFailed source e])
         | Some (Inr body) \<Rightarrow> sitemap_parse w source body []))"

section \<open>The aggregator\<close>

text \<open>The parsed command line (\<^verbatim>\<open>args\<close>), with the defaults of the parser filled in.\<close>

record args =
  arg_urls :: "string list option"
  arg_file :: "string option"
  arg_stdin :: bool
  arg_csv :: "string option"
  arg_csv_column :: string
  arg_json :: "string option"
  arg_json_key :: "string option"
  arg_sitemap :: "string option"
  arg_out :: string
  arg_preserve_path :: bool
  arg_skip_existing :: bool
  arg_producers :: int

text \<open>\<^verbatim>\<open>if args.x: urls |= load(args.x)\<close>: the source is active when the option is a non-empty string.\<close>

definition when_given :: "string option \<Rightarrow> (string \<Rightarrow> string set \<times> event list) \<Rightarrow> string set \<times> event list" where
  "when_given opt load =
     (case opt of
        None \<Rightarrow> ({}, [])
      | Some p \<Rightarrow> if p \<noteq> [] then load p else ({}, []))"

definition literal_urls :: "world \<Rightarrow> string list option \<Rightarrow> string set \<times> event list" where
  "literal_urls w opt =
     (case opt of
        None \<Rightarrow> ({}, [])
      | Some us \<Rightarrow>
          if us \<noteq> []
          then (set (filter (is_valid_url w) us),
                map IgnoredInvalidUrl (filter (\<lambda>u. \<not> is_valid_url w u) us))
          else ({}, []))"

definition collect_urls :: "world \<Rightarrow> args \<Rightarrow> string set \<times> event list" where
  "collect_urls w a =
     (let (u1, e1) = literal_urls w (arg_urls a);
          (u2, e2) = when_given (arg_file a) (load_from_file_lines w);
          (u3, e3) = (if arg_stdin a then (load_from_stdin w, []) else ({}, []));
          (u4, e4) = when_given (arg_csv a) (\<lambda>p. load_from_csv w p (arg_csv_column a));
          (u5, e5) = when_given (arg_json a) (\<lambda>p. load_from_json w p (arg_json_key a));
          (u6, e6) = when_given (arg_sitemap a) (load_from_sitemap w)
      in (u1 \<union> u2 \<union> u3 \<union> u4 \<union> u5 \<union> u6, e1 @ e2 @ e3 @ e4 @ e5 @ e6))"

section \<open>The file system and the worker\<close>

text \<open>
  The disk maps a normalised path to a regular file with its content or to a directory.
  Paths are resolved lexically with \<open>normpath\<close> (no symbolic links); a path all of whose
  components are empty, \<^verbatim>\<open>.\<close> or \<^verbatim>\<open>..\<close> (the root, the working directory and its
  ancestors) always is a directory. Lexical resolution differs from the operating system
  on the empty path and on a path that steps through a missing directory
  (\<^verbatim>\<open>missing/../x\<close>); the paths the worker resolves under a normalised output root are
  not of these forms.
\<close>

datatype node = File string | Dir

type_synonym disk = "string \<Rightarrow> node option"

definition node_at :: "disk \<Rightarrow> string \<Rightarrow> node option" where
  "node_at d p =
     (let q = normpath p
      in if set (split_on CHR ''/'' q) \<subseteq> {[], ''.'', ''..''} then Some Dir else d q)"

definition os_path_isdir :: "disk \<Rightarrow> string \<Rightarrow> bool" where
  "os_path_isdir d p = (node_at d p = Some Dir)"

definition os_path_exists :: "disk \<Rightarrow> string \<Rightarrow> bool" where
  "os_path_exists d p = (node_at d p \<noteq> None)"

definition is_file :: "disk \<Rightarrow> string \<Rightarrow> bool" where
  "is_file d p = (case node_at d p of Some (File c) \<Rightarrow> True | _ \<Rightarrow> False)"

text \<open>The regular files of a disk, with their contents.\<close>

definition files_of :: "disk \<Rightarrow> string \<Rightarrow> string option" where
  "files_of d q = (case d q of Some (File c) \<Rightarrow> Some c | _ \<Rightarrow> None)"

text \<open>
  The directories \<^verbatim>\<open>os.makedirs(name, exist_ok=True)\<close> walks through: every prefix of
  the normalised path that ends at a component, the path itself last.
\<close>

definition dir_chain :: "string \<Rightarrow> string list" where
  "dir_chain name =
     (let comps = split_on CHR ''/'' (normpath name)
      in filter (\<lambda>q. q \<noteq> [])
           (map (\<lambda>k. join_with CHR ''/'' (take k comps)) [1 ..< Suc (length comps)]))"

text \<open>
  \<^verbatim>\<open>os.makedirs(name, exist_ok=True)\<close>: it raises when the name is empty, when a
  directory on the way is a regular file, or when the name itself is a regular file, and
  then has created nothing; otherwise every directory of the chain exists afterwards.
  The chain is that of the normalised name, and the errors of the operating system other
  than these collisions (permissions, a full disk, an over-long name) are not modelled.
\<close>

definition makedirs :: "disk \<Rightarrow> string \<Rightarrow> exn + disk" where
  "makedirs d name =
     (if name = [] then Inl FileNotFoundError
      else if list_ex (is_file d) (butlast (dir_chain name)) then Inl NotADirectoryError
      else if is_file d name then Inl FileExistsError
      else Inr (fold (\<lambda>q m. if m q = None then m(q \<mapsto> Dir) else m) (dir_chain name) d))"

text \<open>
  \<^verbatim>\<open>open(filepath, "wb")\<close> followed by \<^verbatim>\<open>f.write(data)\<close>: it raises on a directory and
  when the parent is not a directory, and replaces the content otherwise. Other errors
  of the operating system (an over-long name, permissions) are not modelled; in the
  source they are raised inside the \<^verbatim>\<open>try\<close> and end in the \<^verbatim>\<open>[Error]\<close> line as well.
\<close>

definition write_file :: "disk \<Rightarrow> string \<Rightarrow> string \<Rightarrow> exn + disk" where
  "write_file d p data =
     (if os_path_isdir d p then Inl IsADirectoryError
      else if posix_dirname (normpath p) \<noteq> [] \<and> \<not> os_path_isdir d (posix_dirname (normpath p))
        then Inl FileNotFoundError
      else Inr (d(normpath p \<mapsto> File data)))"

record state =
  disk_of :: disk
  trace :: "event list"

definition emit :: "state \<Rightarrow> event list \<Rightarrow> state" where
  "emit st evs = st\<lparr>trace := trace st @ evs\<rparr>"

text \<open>The block under the comment \<^verbatim>\<open># Ensure directory exists\<close>.\<close>

definition ensure_dir :: "disk \<Rightarrow> string \<Rightarrow> exn + disk" where
  "ensure_dir d dirpath =
     (if dirpath \<noteq> [] \<and> \<not> os_path_isdir d dirpath then makedirs d dirpath else Inr d)"

text \<open>
  \<^verbatim>\<open>download_and_save\<close>. The first component of the result is the exception that leaves
  the function, \<open>None\<close> when it returns. Everything inside the \<^verbatim>\<open>try\<close> that raises ends in
  the \<^verbatim>\<open>except\<close> branch, which prints \<^verbatim>\<open>[Error]\<close> with the exception.
\<close>

definition download_and_save ::
  "world \<Rightarrow> string \<Rightarrow> string \<Rightarrow> bool \<Rightarrow> bool \<Rightarrow> state \<Rightarrow> exn option \<times> state" where
  "download_and_save w url out_dir preserve_path skip_existing st =
     (case resolve_filepath w url out_dir preserve_path of
        Inl e \<Rightarrow> (Some e, st)
      | Inr filepath \<Rightarrow>
          (case ensure_dir (disk_of st) (posix_dirname filepath) of
             Inl e \<Rightarrow> (Some e, st)
           | Inr d \<Rightarrow>
               if skip_existing \<and> os_path_exists d filepath
               then (None, emit (st\<lparr>disk_of := d\<rparr>) [PrintSkip filepath])
               else
                 (case http_get w url of
                    Inl e \<Rightarrow>
                      (None, emit (st\<lparr>disk_of := d\<rparr>) [PrintGet url, HttpGet url, PrintError url e])
                  | Inr resp \<Rightarrow>
                      (case raise_for_status resp of
                         Some e \<Rightarrow>
                           (None, emit (st\<lparr>disk_of := d\<rparr>)
                                    [PrintGet url, HttpGet url, PrintError url e])
                       | None \<Rightarrow>
                           (case write_file d filepath (content resp) of
                              Inl e \<Rightarrow>
                                (None, emit (st\<lparr>disk_of := d\<rparr>)
                                         [PrintGet url, HttpGet url, PrintError url e])
                            | Inr d' \<Rightarrow>
                                (None, emit (st\<lparr>disk_of := d'\<rparr>)
                                         [PrintGet url, HttpGet url, PrintSaved filepath]))))))"

section \<open>The coordinator\<close>

text \<open>
  The pool runs one worker per URL of the set; the futures are waited for and their
  results and exceptions are never read. The order in which the workers run is not
  fixed by the program: \<open>sched\<close> gives it, and \<open>main\<close> keeps of it the members of the
  set, each once. A worker is taken as one step: an exception of a worker stays in its
  future, and the next worker starts from the state the worker left.
\<close>

definition run_workers :: "world \<Rightarrow> args \<Rightarrow> string list \<Rightarrow> state \<Rightarrow> state" where
  "run_workers w a sched st =
     fold (\<lambda>u s. snd (download_and_save w u (arg_out a) (arg_preserve_path a)
                          (arg_skip_existing a) s)) sched st"

text \<open>
  \<^verbatim>\<open>main\<close> after the command line is parsed. \<^verbatim>\<open>os.makedirs(args.out)\<close> and the
  constructor of the pool (which rejects a worker count below one) are outside any handler.
\<close>

definition main :: "world \<Rightarrow> args \<Rightarrow> string list \<Rightarrow> state \<Rightarrow> exn option \<times> state" where
  "main w a sched st =
     (let (urls, evs) = collect_urls w a;
          st1 = emit st evs
      in if urls = {} then (None, emit st1 [NoUrlsProvided])
         else
           (case makedirs (disk_of st1) (arg_out a) of
              Inl e \<Rightarrow> (Some e, st1)
            | Inr d \<Rightarrow>
                let st2 = emit (st1\<lparr>disk_of := d\<rparr>) [Downloading (card urls) (arg_producers a)]
                in if arg_producers a \<le> 0 then (Some ValueError, st2)
                   else (None, emit (run_workers w a (remdups (filter (\<lambda>u. u \<in> urls) sched)) st2)
                                 [AllCompleted])))"

section \<open>Notions used in the statements\<close>

text \<open>
  A relative path is confined when it is not empty, not absolute, and none of its
  components is \<^verbatim>\<open>..\<close>. A path lies within a root when it is the root joined with a
  confined relative path.
\<close>

definition confined :: "string \<Rightarrow> bool" where
  "confined rel =
     (rel \<noteq> [] \<and> \<not> startswith rel ''/'' \<and> ''..'' \<notin> set (split_on CHR ''/'' rel))"

definition within_root :: "string \<Rightarrow> string \<Rightarrow> bool" where
  "within_root root p =
     (\<exists>n \<in> set [0 ..< Suc (length p)].
        confined (drop n p) \<and>
        p = (if root = [] \<or> endswith root ''/'' then root @ drop n p
             else root @ ''/'' @ drop n p))"

text \<open>Two adjacent dots somewhere in a string.\<close>

fun has_dotdot :: "string \<Rightarrow> bool" where
  "has_dotdot (a # b # s) = ((a = CHR ''.'' \<and> b = CHR ''.'') \<or> has_dotdot (b # s))"
| "has_dotdot s = False"

text \<open>The invariant of the component list in \<open>normpath\<close> on a relative path.\<close>

definition comps_ok :: "string list \<Rightarrow> bool" where
  "comps_ok ps = ((\<forall>q \<in> set ps. q \<noteq> [] \<and> CHR ''/'' \<notin> set q)
                  \<and> (''..'' \<in> set ps \<longrightarrow> hd ps = ''..''))"

text \<open>
  A string occurs in a JSON document when it is the document, or occurs in an element of
  a list or in a value of an object, at any depth.
\<close>

inductive string_in :: "json \<Rightarrow> string \<Rightarrow> bool" where
  here: "string_in (JString s) s"
| in_list: "v \<in> set vs \<Longrightarrow> string_in v s \<Longrightarrow> string_in (JList vs) s"
| in_dict: "(k, v) \<in> set kvs \<Longrightarrow> string_in v s \<Longrightarrow> string_in (JDict kvs) s"

text \<open>The tag name without its namespace: what follows \<^verbatim>\<open>{uri}\<close>.\<close>

definition local_name :: "string \<Rightarrow> string" where
  "local_name t =
     (if startswith t ''{'' \<and> CHR ''}'' \<in> set t
      then drop 1 (dropWhile (\<lambda>c. c \<noteq> CHR ''}'') t) else t)"

text \<open>
  A world with the model of CPython's parser, an unreachable network and no input files;
  the examples below change the fields they need. \<open>offline_world\<close> accepts every
  bracketed or non-ASCII authority; the examples use neither.
\<close>

definition cpython_world :: "(string \<Rightarrow> bool) \<Rightarrow> world" where
  "cpython_world netloc_ok =
     \<lparr>urlparse = py_urlparse netloc_ok,
      http_get = (\<lambda>_. Inl (RequestException ''unreachable'')),
      text_file = (\<lambda>_. None), stdin_lines = [],
      csv_file = (\<lambda>_. None), json_file = (\<lambda>_. None),
      binary_file = (\<lambda>_. None),
      parse_xml = (\<lambda>_. Inl (ParseError ''no document''))\<rparr>"

definition offline_world :: world where
  "offline_world = cpython_world (\<lambda>_. True)"

text \<open>Scenario B of the specification: the document and a world whose JSON file holds it.\<close>

definition scenario_b :: json where
  "scenario_b =
     JDict [(''items'', JList [JDict [(''link'', JString ''http://x/f1'')],
                              JDict [(''link'', JString ''not-a-url'')]])]"

definition scenario_b_world :: world where
  "scenario_b_world = offline_world\<lparr>json_file := (\<lambda>_. Some (Inr scenario_b))\<rparr>"

text \<open>
  The elements of a document, independently of any traversal: the root is one, and so is
  every element of a child of the root, at any depth.
\<close>

inductive elem_in :: "xml \<Rightarrow> xml \<Rightarrow> bool" where
  root: "elem_in r r"
| below: "c \<in> set (elem_children r) \<Longrightarrow> elem_in c e \<Longrightarrow> elem_in r e"

text \<open>
  The candidate of one element, as the specification words it: the trimmed text of an
  element that has text and whose tag name, lower-cased and without its namespace, ends
  in \<^verbatim>\<open>loc\<close>, kept when it is a valid URL.
\<close>

definition loc_urls :: "world \<Rightarrow> xml \<Rightarrow> string set" where
  "loc_urls w e =
     {strip t | n t. elem_tag e = TagName n \<and> endswith (lower (local_name n)) ''loc''
                     \<and> elem_text e = Some t \<and> t \<noteq> [] \<and> is_valid_url w (strip t)}"

text \<open>
  Scenario D of the specification: a namespaced sitemap with two \<^verbatim>\<open>loc\<close> entries, and a
  world whose sitemap file parses to it.
\<close>

definition sitemap_ns :: string where
  "sitemap_ns = ''{http://www.sitemaps.org/schemas/sitemap/0.9}''"

definition scenario_d :: xml where
  "scenario_d =
     Element (TagName (sitemap_ns @ ''urlset'')) (Some [CHR 0x0A])
       [Element (TagName (sitemap_ns @ ''url'')) None
          [Element (TagName (sitemap_ns @ ''loc'')) (Some ''http://x/p1'') []],
        Element (TagName (sitemap_ns @ ''url'')) None
          [Element (TagName (sitemap_ns @ ''LOC'')) (Some ('' http://x/p2'' @ [CHR 0x0A])) []],
        Element TagOther (Some ''http://x/comment'') []]"

definition scenario_d_world :: world where
  "scenario_d_world =
     offline_world\<lparr>binary_file := (\<lambda>_. Some (Inr ''<urlset/>'')),
                   parse_xml := (\<lambda>_. Inr scenario_d)\<rparr>"

text \<open>
  Scenario A of the specification, with a second source: the same URL given twice on the
  command line and once more in a line file, beside an invalid entry in each.
\<close>

definition scenario_a_args :: args where
  "scenario_a_args =
     \<lparr>arg_urls = Some [''http://x/a.txt'', ''bad'', ''http://x/a.txt''],
      arg_file = Some ''urls.txt'', arg_stdin = False, arg_csv = None,
      arg_csv_column = ''url'', arg_json = None, arg_json_key = None, arg_sitemap = None,
      arg_out = ''downloaded'', arg_preserve_path = False, arg_skip_existing = False,
      arg_producers = 6\<rparr>"

definition scenario_a_world :: world where
  "scenario_a_world =
     offline_world\<lparr>text_file := (\<lambda>_. Some ['' http://x/a.txt '', ''ftp://x/b'', [CHR 0x0A]])\<rparr>"

text \<open>
  Worlds and disks for the examples of the worker: a server that answers every GET with
  one status and body, a disk that holds the output directory, and a disk on which a
  regular file \<^verbatim>\<open>out/a\<close> stands where a URL path needs a directory.
\<close>

definition serving :: "nat \<Rightarrow> string \<Rightarrow> world" where
  "serving code body = offline_world\<lparr>http_get := (\<lambda>_. Inr \<lparr>status_code = code, content = body\<rparr>)\<rparr>"

definition out_disk :: disk where
  "out_disk = Map.empty(''out'' \<mapsto> Dir)"

definition old_file_disk :: disk where
  "old_file_disk = Map.empty(''out'' \<mapsto> Dir, ''out/a.txt'' \<mapsto> File ''old'')"

definition collision_disk :: disk where
  "collision_disk = Map.empty(''out'' \<mapsto> Dir, ''out/a'' \<mapsto> File ''taken'')"

definition run_args :: "string list \<Rightarrow> bool \<Rightarrow> bool \<Rightarrow> args" where
  "run_args us preserve skip =
     \<lparr>arg_urls = Some us, arg_file = None, arg_stdin = False, arg_csv = None,
      arg_csv_column = ''url'', arg_json = None, arg_json_key = None, arg_sitemap = None,
      arg_out = ''out'', arg_preserve_path = preserve, arg_skip_existing = skip,
      arg_producers = 6\<rparr>"

section \<open>Path resolution stays within the output root\<close>

lemma split_on_nonempty: "split_on c s \<noteq> []"
  by (induction s) (auto split: list.splits)

lemma split_on_no_sep: "t \<in> set (split_on c s) \<Longrightarrow> c \<notin> set t"
  by (induction s arbitrary: t) (auto split: list.splits if_splits)

lemma split_on_single: "c \<notin> set s \<Longrightarrow> split_on c s = [s]"
  by (induction s) auto

lemma split_on_append: "c \<notin> set s \<Longrightarrow> split_on c (s @ c # t) = s # split_on c t"
  by (induction s) (auto split: list.splits)

lemma split_on_join:
  "ps \<noteq> [] \<Longrightarrow> (\<And>q. q \<in> set ps \<Longrightarrow> c \<notin> set q) \<Longrightarrow> split_on c (join_with c ps) = ps"
  by (induction c ps rule: join_with.induct) (auto simp: split_on_single split_on_append)

lemma dotdot_component_has_dotdot:
  "''..'' \<in> set (split_on c s) \<Longrightarrow> has_dotdot s"
proof (induction s rule: has_dotdot.induct)
  case (1 a b s)
  then show ?case
    by (auto split: list.splits if_splits)
qed (auto split: if_splits)


lemma replace_dotdot_hd:
  "replace_dotdot (b # s) = x # r \<Longrightarrow> x = b \<or> x = CHR ''_''"
  by (cases s) (auto split: if_splits)

lemma replace_dotdot_no_dotdot: "\<not> has_dotdot (replace_dotdot s)"
proof (induction s rule: replace_dotdot.induct)
  case (1 a b s)
  show ?case
  proof (cases "a = CHR ''.'' \<and> b = CHR ''.''")
    case True
    with 1 show ?thesis
      by (cases "replace_dotdot s") auto
  next
    case False
    with 1 have ih: "\<not> has_dotdot (replace_dotdot (b # s))" by simp
    from False have eq: "replace_dotdot (a # b # s) = a # replace_dotdot (b # s)" by auto
    show ?thesis
    proof (cases "replace_dotdot (b # s)")
      case Nil
      with eq show ?thesis by simp
    next
      case (Cons x r)
      from replace_dotdot_hd[OF Cons] have "x = b \<or> x = CHR ''_''" .
      with False ih Cons eq show ?thesis by auto
    qed
  qed
qed simp_all

lemma hd_butlast_eq: "butlast ps \<noteq> [] \<Longrightarrow> hd (butlast ps) = hd ps"
  by (cases ps) (auto split: if_splits)

lemma comps_ok_snoc:
  assumes "comps_ok ps" and "seg \<noteq> []" and "CHR ''/'' \<notin> set seg"
    and "seg = ''..'' \<Longrightarrow> ps = [] \<or> last ps = ''..''"
  shows "comps_ok (ps @ [seg])"
proof (cases "ps = []")
  case True
  with assms show ?thesis by (simp add: comps_ok_def)
next
  case False
  then have "hd (ps @ [seg]) = hd ps" by simp
  moreover have "''..'' \<in> set (ps @ [seg]) \<Longrightarrow> ''..'' \<in> set ps"
  proof -
    assume a: "''..'' \<in> set (ps @ [seg])"
    show "''..'' \<in> set ps"
    proof (cases "seg = ''..''")
      case True
      with assms(4) False have "last ps = ''..''" by simp
      with last_in_set[OF False] show ?thesis by simp
    next
      case False
      with a show ?thesis by auto
    qed
  qed
  ultimately show ?thesis
    using assms(1-3) by (auto simp: comps_ok_def)
qed

lemma comps_ok_butlast:
  assumes "comps_ok ps"
  shows "comps_ok (butlast ps)"
proof -
  have "''..'' \<in> set (butlast ps) \<Longrightarrow> hd (butlast ps) = ''..''"
  proof -
    assume a: "''..'' \<in> set (butlast ps)"
    then have "butlast ps \<noteq> []" by auto
    then have "hd (butlast ps) = hd ps" by (rule hd_butlast_eq)
    moreover from a have "''..'' \<in> set ps" by (rule in_set_butlastD)
    ultimately show ?thesis using assms by (simp add: comps_ok_def)
  qed
  moreover have "\<forall>q \<in> set (butlast ps). q \<noteq> [] \<and> CHR ''/'' \<notin> set q"
    using assms by (auto simp: comps_ok_def dest: in_set_butlastD)
  ultimately show ?thesis by (simp add: comps_ok_def)
qed

lemma normpath_step_ok:
  assumes "comps_ok ps" and "CHR ''/'' \<notin> set seg"
  shows "comps_ok (normpath_step 0 ps seg)"
  using assms comps_ok_snoc[of ps seg] comps_ok_butlast[of ps]
  by (auto simp: normpath_step_def)

lemma foldl_normpath_step_ok:
  "comps_ok ps \<Longrightarrow> (\<And>q. q \<in> set segs \<Longrightarrow> CHR ''/'' \<notin> set q)
     \<Longrightarrow> comps_ok (foldl (normpath_step 0) ps segs)"
  by (induction segs arbitrary: ps) (auto simp: normpath_step_ok)

lemma join_with_Cons:
  "join_with c (p # ps) = (if ps = [] then p else p @ c # join_with c ps)"
  by (cases ps) auto

lemma normpath_relative:
  assumes "p \<noteq> []" and "\<not> startswith p ''/''"
  shows "\<exists>ps. comps_ok ps \<and> normpath p = (if ps = [] then ''.'' else join_with CHR ''/'' ps)"
proof -
  let ?ps = "foldl (normpath_step 0) [] (split_on CHR ''/'' p)"
  have ok: "comps_ok ?ps"
    by (rule foldl_normpath_step_ok) (auto simp: comps_ok_def dest: split_on_no_sep)
  have ne: "?ps \<noteq> [] \<Longrightarrow> join_with CHR ''/'' ?ps \<noteq> []"
    using ok by (cases ?ps) (auto simp: comps_ok_def join_with_Cons)
  have "normpath p = (if ?ps = [] then ''.'' else join_with CHR ''/'' ?ps)"
    using assms ne by (auto simp: normpath_def Let_def)
  with ok show ?thesis by blast
qed

lemma join_with_hd:
  "ps \<noteq> [] \<Longrightarrow> hd ps \<noteq> [] \<Longrightarrow> hd (join_with c ps) = hd (hd ps)"
  by (cases ps) (auto simp: join_with_Cons)

lemma join_with_startswith:
  "ps \<noteq> [] \<Longrightarrow> hd ps = ''..'' \<Longrightarrow> startswith (join_with c ps) ''..''"
  by (cases ps) (auto simp: startswith_def join_with_Cons)

lemma normpath_confined:
  assumes "p \<noteq> []" and "\<not> startswith p ''/''" and "\<not> startswith (normpath p) ''..''"
  shows "confined (normpath p)"
proof -
  from normpath_relative[OF assms(1,2)] obtain ps where ok: "comps_ok ps"
    and np: "normpath p = (if ps = [] then ''.'' else join_with CHR ''/'' ps)" by blast
  show ?thesis
  proof (cases "ps = []")
    case True
    with np show ?thesis by (simp add: confined_def startswith_def)
  next
    case False
    with np have eq: "normpath p = join_with CHR ''/'' ps" by simp
    from ok False have hdne: "hd ps \<noteq> []" and hdns: "CHR ''/'' \<notin> set (hd ps)"
      by (auto simp: comps_ok_def)
    have "hd ps \<noteq> ''..''"
      using join_with_startswith[OF False] assms(3) eq by auto
    with ok have nodd: "''..'' \<notin> set ps" by (auto simp: comps_ok_def)
    have sp: "split_on CHR ''/'' (normpath p) = ps"
      unfolding eq using ok False by (intro split_on_join) (auto simp: comps_ok_def)
    have h: "hd (normpath p) = hd (hd ps)"
      unfolding eq by (rule join_with_hd[OF False hdne])
    have ne: "normpath p \<noteq> []"
      unfolding eq using False hdne by (cases ps) (auto simp: join_with_Cons)
    have "hd (hd ps) \<in> set (hd ps)" using hdne by simp
    with hdns have "hd (hd ps) \<noteq> CHR ''/''" by auto
    with h ne have "\<not> startswith (normpath p) ''/''"
      by (cases "normpath p") (auto simp: startswith_def)
    with ne sp nodd show ?thesis by (simp add: confined_def)
  qed
qed

lemma replace_dotdot_confined:
  assumes "startswith s ''..''"
  shows "confined (replace_dotdot s)"
proof -
  from assms obtain t where s: "s = CHR ''.'' # CHR ''.'' # t"
    by (cases s rule: replace_dotdot.cases) (auto simp: startswith_def)
  then have r: "replace_dotdot s = CHR ''_'' # replace_dotdot t" by simp
  have "''..'' \<notin> set (split_on CHR ''/'' (replace_dotdot s))"
    using dotdot_component_has_dotdot replace_dotdot_no_dotdot by blast
  with r show ?thesis by (simp add: confined_def startswith_def)
qed

lemma posix_join_confined:
  assumes "confined rel"
  shows "within_root root (posix_join root rel)"
proof -
  let ?p = "posix_join root rel"
  let ?n = "length ?p - length rel"
  from assms have ns: "\<not> startswith rel ''/''" by (simp add: confined_def)
  then have p: "?p = (if root = [] \<or> endswith root ''/'' then root @ rel else root @ ''/'' @ rel)"
    by (simp add: posix_join_def)
  then have d: "drop ?n ?p = rel" by auto
  have "?n \<in> set [0 ..< Suc (length ?p)]" by auto
  moreover have "confined (drop ?n ?p)" using d assms by simp
  moreover have "?p = (if root = [] \<or> endswith root ''/'' then root @ drop ?n ?p
                       else root @ ''/'' @ drop ?n ?p)"
    using p d by metis
  ultimately show ?thesis unfolding within_root_def by blast
qed

text \<open>
  Claim C1. In preserve-path mode, whenever \<open>resolve_filepath\<close> returns a path, that path
  is the output root joined with a relative path that is not empty, not absolute and has
  no \<^verbatim>\<open>..\<close> component: the resolved path never lies outside the output root. This
  holds for every URL parser and every output root.
\<close>

theorem resolve_filepath_within_root:
  assumes "resolve_filepath w url out_root True = Inr r"
  shows "within_root out_root r"
proof -
  from assms obtain parsed where up: "urlparse w url = Inr parsed"
    by (auto simp: resolve_filepath_def split: sum.splits)
  define path0 where "path0 = dropWhile (\<lambda>c. c = CHR ''/'') (path parsed)"
  define path1 where "path1 = (if path0 = [] \<or> endswith path0 ''/''
                          then posix_join path0 ''downloaded_file'' else path0)"
  define safe_path where "safe_path = (if startswith (normpath path1) ''..''
                              then replace_dotdot (normpath path1) else normpath path1)"
  have "resolve_filepath w url out_root True = Inr (posix_join out_root safe_path)"
    unfolding resolve_filepath_def Let_def path0_def path1_def safe_path_def
    by (simp only: up sum.case if_True)
  with assms have r: "r = posix_join out_root safe_path" by simp
  have hd0: "path0 \<noteq> [] \<Longrightarrow> hd path0 \<noteq> CHR ''/''"
    unfolding path0_def using hd_dropWhile[of "\<lambda>c. c = CHR ''/''" "path parsed"] by simp
  have ne1: "path1 \<noteq> []"
    by (auto simp: path1_def posix_join_def startswith_def)
  have rel1: "\<not> startswith path1 ''/''"
  proof (cases "path0 = []")
    case True
    then show ?thesis by (simp add: path1_def posix_join_def startswith_def endswith_def)
  next
    case False
    with hd0 have "hd path0 \<noteq> CHR ''/''" by simp
    with False have "\<not> startswith path0 ''/''" and "\<not> startswith (path0 @ s) ''/''" for s
      by (cases path0; simp add: startswith_def)+
    then show ?thesis
      by (auto simp: path1_def posix_join_def startswith_def)
  qed
  have "confined safe_path"
    unfolding safe_path_def
    using normpath_confined[OF ne1 rel1] replace_dotdot_confined[of "normpath path1"]
    by auto
  then show ?thesis unfolding r by (rule posix_join_confined)
qed

theorem resolve_filepath_within_root_witness:
  "resolve_filepath offline_world ''http://x/../../etc/passwd'' ''out'' True
     = Inr ''out/_/_/etc/passwd''
   \<and> within_root ''out'' ''out/_/_/etc/passwd''
   \<and> \<not> within_root ''out'' ''out/../../etc/passwd''"
proof -
  have a: "resolve_filepath offline_world ''http://x/../../etc/passwd'' ''out'' True
             = Inr ''out/_/_/etc/passwd''"
    by code_simp
  have b: "\<not> within_root ''out'' ''out/../../etc/passwd''"
    by code_simp
  from a b resolve_filepath_within_root[OF a] show ?thesis by simp
qed

section \<open>URL validation\<close>

lemma is_valid_url_uppercase_scheme:
  "is_valid_url (cpython_world netloc_ok) ''HTTP://A.B/c''"
  by (simp add: is_valid_url_def cpython_world_def py_urlparse_def Let_def char_of_def
      bit_Suc_0_iff ascii_alpha_def scheme_char_def lower_def lower_char_def split_first_def
      uses_params_def)

lemma urlparse_unmatched_bracket:
  "urlparse (cpython_world netloc_ok) ''http://[::1'' = Inl ValueError"
  by (simp add: cpython_world_def py_urlparse_def Let_def ascii_alpha_def scheme_char_def
      lower_def lower_char_def)

text \<open>
  Claim C2. For every parser and every string, \<open>is_valid_url\<close> is true exactly when the
  parser returns a result whose scheme is \<^verbatim>\<open>http\<close> or \<^verbatim>\<open>https\<close> and whose authority
  is not empty; a parser that raises gives false, and the function itself never raises
  (it is a total function to \<^typ>\<open>bool\<close>). With the model of CPython's parser,
  \<^verbatim>\<open>ftp://x.com\<close> and \<^verbatim>\<open>http://\<close> are invalid and \<^verbatim>\<open>https://a.b/c\<close> is valid.
\<close>

theorem is_valid_url_iff:
  "(is_valid_url w s \<longleftrightarrow>
      (\<exists>p. urlparse w s = Inr p \<and> (scheme p = ''http'' \<or> scheme p = ''https'') \<and> netloc p \<noteq> []))
   \<and> (\<forall>e. urlparse w s = Inl e \<longrightarrow> \<not> is_valid_url w s)
   \<and> \<not> is_valid_url (cpython_world netloc_ok) ''ftp://x.com''
   \<and> \<not> is_valid_url (cpython_world netloc_ok) ''http://''
   \<and> is_valid_url (cpython_world netloc_ok) ''https://a.b/c''"
proof -
  have general: "is_valid_url w s \<longleftrightarrow>
      (\<exists>p. urlparse w s = Inr p \<and> (scheme p = ''http'' \<or> scheme p = ''https'') \<and> netloc p \<noteq> [])"
    by (auto simp: is_valid_url_def split: sum.splits)
  have failure: "\<forall>e. urlparse w s = Inl e \<longrightarrow> \<not> is_valid_url w s"
    by (simp add: is_valid_url_def)
  have ftp: "\<not> is_valid_url (cpython_world netloc_ok) ''ftp://x.com''"
    by (simp add: is_valid_url_def cpython_world_def py_urlparse_def Let_def
        ascii_alpha_def scheme_char_def lower_def lower_char_def split_first_def uses_params_def)
  have nohost: "\<not> is_valid_url (cpython_world netloc_ok) ''http://''"
    by (simp add: is_valid_url_def cpython_world_def py_urlparse_def Let_def
        ascii_alpha_def scheme_char_def lower_def lower_char_def split_first_def uses_params_def)
  have ok: "is_valid_url (cpython_world netloc_ok) ''https://a.b/c''"
    by (simp add: is_valid_url_def cpython_world_def py_urlparse_def Let_def
        ascii_alpha_def scheme_char_def lower_def lower_char_def split_first_def uses_params_def)
  from general failure ftp nohost ok show ?thesis by blast
qed

theorem is_valid_url_iff_witness:
  "urlparse offline_world ''http://[::1'' = Inl ValueError
   \<and> \<not> is_valid_url offline_world ''http://[::1''
   \<and> \<not> is_valid_url offline_world ''ftp://x.com''
   \<and> is_valid_url offline_world ''https://a.b/c''"
proof -
  have h: "urlparse offline_world ''http://[::1'' = Inl ValueError"
    unfolding offline_world_def by (rule urlparse_unmatched_bracket)
  from is_valid_url_iff[of offline_world "''http://[::1''" "\<lambda>_. True"] h
  show ?thesis unfolding offline_world_def by blast
qed

section \<open>The JSON extractor without a key path\<close>

lemma fold_union:
  "(\<And>x acc. x \<in> set xs \<Longrightarrow> f x acc = acc \<union> g x)
     \<Longrightarrow> fold f xs acc = acc \<union> (\<Union>x \<in> set xs. g x)"
  by (induction xs arbitrary: acc) auto

lemma string_in_JList: "string_in (JList vs) s = (\<exists>v \<in> set vs. string_in v s)"
  by (auto elim: string_in.cases intro: string_in.intros)

lemma string_in_JDict: "string_in (JDict kvs) s = (\<exists>kv \<in> set kvs. string_in (snd kv) s)"
proof
  assume "string_in (JDict kvs) s"
  then obtain k v where "(k, v) \<in> set kvs" and "string_in v s"
    by (auto elim: string_in.cases)
  then show "\<exists>kv \<in> set kvs. string_in (snd kv) s" by force
next
  assume "\<exists>kv \<in> set kvs. string_in (snd kv) s"
  then obtain kv where "kv \<in> set kvs" and sv: "string_in (snd kv) s" by blast
  then have "(fst kv, snd kv) \<in> set kvs" by simp
  from string_in.in_dict[OF this sv] show "string_in (JDict kvs) s" .
qed

lemma string_in_JString: "string_in (JString t) s = (s = t)"
  by (auto elim: string_in.cases intro: string_in.intros)

lemma string_in_leaf:
  "\<not> string_in JNull s" "\<not> string_in (JBool b) s" "\<not> string_in (JNumber n) s"
  by (auto elim: string_in.cases)

lemma collect_urls_any_eq:
  "collect_urls_any w j acc = acc \<union> {s. string_in j s \<and> is_valid_url w s}"
proof (induction w j acc rule: collect_urls_any.induct)
  case (1 w s acc)
  show ?case by (auto simp: string_in_JString)
next
  case (2 w vs acc)
  have "fold (\<lambda>v. collect_urls_any w v) vs acc
          = acc \<union> (\<Union>v \<in> set vs. {s. string_in v s \<and> is_valid_url w s})"
    by (rule fold_union) (rule 2)
  then show ?case by (auto simp: string_in_JList)
next
  case (3 w kvs acc)
  have "fold (\<lambda>kv. collect_urls_any w (snd kv)) kvs acc
          = acc \<union> (\<Union>kv \<in> set kvs. {s. string_in (snd kv) s \<and> is_valid_url w s})"
    by (rule fold_union) (rule 3)
  then show ?case by (auto simp: string_in_JDict)
qed (auto simp: string_in_leaf)

text \<open>
  Claim C7. When the JSON file parses to a document and no key path is supplied, the
  extractor returns exactly the strings that occur in the document at any depth (the
  document itself, an element of a list, a value of an object) and are valid URLs, and
  prints nothing. Keys of objects, numbers, booleans and null contribute nothing.
\<close>

theorem load_from_json_tree_walk:
  assumes "json_file w p = Some (Inr doc)"
  shows "load_from_json w p None = ({s. string_in doc s \<and> is_valid_url w s}, [])"
  using assms by (simp add: load_from_json_def collect_urls_any_eq)

theorem load_from_json_tree_walk_witness:
  "json_file scenario_b_world ''urls.json'' = Some (Inr scenario_b)
   \<and> load_from_json scenario_b_world ''urls.json'' None = ({''http://x/f1''}, [])
   \<and> {s. string_in scenario_b s \<and> is_valid_url scenario_b_world s} = {''http://x/f1''}"
proof -
  have h: "json_file scenario_b_world ''urls.json'' = Some (Inr scenario_b)"
    by (simp add: scenario_b_world_def)
  have e: "load_from_json scenario_b_world ''urls.json'' None = ({''http://x/f1''}, [])"
    by code_simp
  from load_from_json_tree_walk[OF h] e h show ?thesis by simp
qed

section \<open>The sitemap extractor\<close>

lemma endswith_suffix: "endswith s p = suffix p s"
proof
  assume "endswith s p"
  then have "s = take (length s - length p) s @ p"
    by (metis append_take_drop_id endswith_def)
  then show "suffix p s" by (metis suffixI)
next
  assume "suffix p s"
  then obtain u where "s = u @ p" by (auto simp: suffix_def)
  then show "endswith s p" by (simp add: endswith_def)
qed

lemma suffix_past_foreign:
  assumes "c \<notin> set p"
  shows "suffix p (a @ c # b) = suffix p b"
  using assms by (auto simp: suffix_append suffix_Cons)

lemma lower_brace: "lower_char CHR ''}'' = CHR ''}''"
  by (simp add: lower_char_def)

lemma local_name_split:
  assumes "startswith t ''{''" and "CHR ''}'' \<in> set t"
  shows "t = takeWhile (\<lambda>c. c \<noteq> CHR ''}'') t @ CHR ''}'' # local_name t"
proof -
  let ?d = "dropWhile (\<lambda>c. c \<noteq> CHR ''}'') t"
  from assms(2) have ne: "?d \<noteq> []" by simp
  then have "hd ?d = CHR ''}''" using hd_dropWhile[of "\<lambda>c. c \<noteq> CHR ''}''" t] by simp
  with ne have "?d = CHR ''}'' # drop 1 ?d" by (cases ?d) auto
  moreover have "local_name t = drop 1 ?d" using assms by (simp add: local_name_def)
  moreover have "t = takeWhile (\<lambda>c. c \<noteq> CHR ''}'') t @ ?d" by simp
  ultimately show ?thesis by metis
qed

lemma lower_snoc_brace: "lower (a @ CHR ''}'' # b) = lower a @ CHR ''}'' # lower b"
  by (simp add: lower_def lower_brace)

lemma loc_test_ignores_namespace:
  "endswith (lower t) ''loc'' = endswith (lower (local_name t)) ''loc''"
proof (cases "startswith t ''{'' \<and> CHR ''}'' \<in> set t")
  case False
  then show ?thesis by (auto simp: local_name_def)
next
  case True
  define a where "a = takeWhile (\<lambda>c. c \<noteq> CHR ''}'') t"
  from True have "t = a @ CHR ''}'' # local_name t"
    unfolding a_def by (simp add: local_name_split)
  then have "lower t = lower a @ CHR ''}'' # lower (local_name t)"
    using lower_snoc_brace[of a "local_name t"] by simp
  then show ?thesis
    by (simp add: endswith_suffix suffix_past_foreign)
qed

lemma sitemap_visit_eq: "sitemap_visit w e acc = acc \<union> loc_urls w e"
proof (cases "elem_tag e")
  case TagOther
  then show ?thesis by (simp add: sitemap_visit_def loc_urls_def)
next
  case (TagName n)
  show ?thesis
  proof (cases "elem_text e")
    case None
    with TagName show ?thesis by (simp add: sitemap_visit_def loc_urls_def)
  next
    case (Some t)
    with TagName show ?thesis
      by (auto simp: sitemap_visit_def loc_urls_def Let_def loc_test_ignores_namespace[symmetric])
  qed
qed


lemma sitemap_parse_eq:
  assumes "parse_xml w body = Inr root"
  shows "sitemap_parse w source body evs = (\<Union>e \<in> set (iter root). loc_urls w e, evs)"
proof -
  have "fold (sitemap_visit w) (iter root) {} = {} \<union> (\<Union>e \<in> set (iter root). loc_urls w e)"
    by (rule fold_union) (rule sitemap_visit_eq)
  with assms show ?thesis by (simp add: sitemap_parse_def)
qed

text \<open>
  \<open>iter\<close> visits exactly the elements of the document: each element it lists is the
  root or lies below it, and it misses none, at any depth.
\<close>

lemma iter_sound: "e \<in> set (iter r) \<Longrightarrow> elem_in r e"
proof (induction r arbitrary: e rule: iter.induct)
  case (1 t x cs)
  show ?case
  proof (cases "e = Element t x cs")
    case True
    then show ?thesis by (simp add: elem_in.root)
  next
    case False
    with "1.prems" obtain c where c: "c \<in> set cs" and e: "e \<in> set (iter c)"
      by auto
    from "1.IH"[OF c e] have "elem_in c e" .
    moreover from c have "c \<in> set (elem_children (Element t x cs))" by simp
    ultimately show ?thesis by (rule elem_in.below[rotated])
  qed
qed

lemma iter_self: "r \<in> set (iter r)"
  by (cases r) simp

lemma iter_child: "c \<in> set (elem_children r) \<Longrightarrow> e \<in> set (iter c) \<Longrightarrow> e \<in> set (iter r)"
  by (cases r) auto

lemma iter_complete: "elem_in r e \<Longrightarrow> e \<in> set (iter r)"
proof (induction rule: elem_in.induct)
  case (root r)
  show ?case by (rule iter_self)
next
  case (below c r e)
  then show ?case by (simp add: iter_child)
qed

lemma set_iter: "set (iter r) = {e. elem_in r e}"
  using iter_sound iter_complete by blast

text \<open>
  Claim C8. When the sitemap document is obtained (fetched with a status that does not
  raise, or read from a file) and parses to a tree, the extractor returns exactly the
  trimmed texts of the elements of the document, the root or any element below it at
  any depth, that have text and whose tag name, lower-cased and without its namespace,
  ends in \<^verbatim>\<open>loc\<close>, kept when they are valid URLs. The elements are given by the relation
  \<open>elem_in\<close>, not by the traversal of the code. The code tests the whole tag
  \<^verbatim>\<open>{uri}local\<close>; \<open>loc_test_ignores_namespace\<close> shows that this is the test on the local
  name, so namespaced entries are extracted like unprefixed ones.
\<close>

theorem load_from_sitemap_locs:
  assumes "(is_valid_url w source \<and> http_get w source = Inr resp
              \<and> raise_for_status resp = None \<and> content resp = body)
           \<or> (\<not> is_valid_url w source \<and> binary_file w source = Some (Inr body))"
    and "parse_xml w body = Inr root"
  shows "fst (load_from_sitemap w source) = {u. \<exists>e. elem_in root e \<and> u \<in> loc_urls w e}"
proof -
  have "fst (load_from_sitemap w source) = (\<Union>e \<in> set (iter root). loc_urls w e)"
    using assms(1) sitemap_parse_eq[OF assms(2)]
    by (auto simp: load_from_sitemap_def)
  also have "\<dots> = {u. \<exists>e. elem_in root e \<and> u \<in> loc_urls w e}"
    unfolding set_iter by blast
  finally show ?thesis .
qed

theorem load_from_sitemap_locs_witness:
  "\<not> is_valid_url scenario_d_world ''sitemap.xml''
   \<and> binary_file scenario_d_world ''sitemap.xml'' = Some (Inr ''<urlset/>'')
   \<and> parse_xml scenario_d_world ''<urlset/>'' = Inr scenario_d
   \<and> load_from_sitemap scenario_d_world ''sitemap.xml'' = ({''http://x/p1'', ''http://x/p2''}, [])
   \<and> {u. \<exists>e. elem_in scenario_d e \<and> u \<in> loc_urls scenario_d_world e}
       = {''http://x/p1'', ''http://x/p2''}"
proof -
  have a: "\<not> is_valid_url scenario_d_world ''sitemap.xml''" by code_simp
  have b: "binary_file scenario_d_world ''sitemap.xml'' = Some (Inr ''<urlset/>'')"
    by (simp add: scenario_d_world_def)
  have c: "parse_xml scenario_d_world ''<urlset/>'' = Inr scenario_d"
    by (simp add: scenario_d_world_def)
  have d: "load_from_sitemap scenario_d_world ''sitemap.xml''
             = ({''http://x/p1'', ''http://x/p2''}, [])"
    by code_simp
  from a b have "(is_valid_url scenario_d_world ''sitemap.xml''
                    \<and> http_get scenario_d_world ''sitemap.xml'' = Inr undefined
                    \<and> raise_for_status undefined = None \<and> content undefined = ''<urlset/>'')
                 \<or> (\<not> is_valid_url scenario_d_world ''sitemap.xml''
                    \<and> binary_file scenario_d_world ''sitemap.xml'' = Some (Inr ''<urlset/>''))"
    by simp
  from load_from_sitemap_locs[OF this c] a b c d show ?thesis by simp
qed

section \<open>The aggregated set holds valid URLs only\<close>

lemma fold_keeps_all:
  "(\<And>x acc. (\<forall>u \<in> acc. Q u) \<Longrightarrow> (\<forall>u \<in> f x acc. Q u))
     \<Longrightarrow> (\<forall>u \<in> acc. Q u) \<Longrightarrow> (\<forall>u \<in> fold f xs acc. Q u)"
proof (induction xs arbitrary: acc)
  case Nil
  then show ?case by simp
next
  case (Cons x xs)
  from Cons.prems(1)[OF Cons.prems(2)] have "\<forall>u \<in> f x acc. Q u" .
  from Cons.IH[OF Cons.prems(1) this] show ?case by simp
qed

lemma literal_urls_valid: "u \<in> fst (literal_urls w opt) \<Longrightarrow> is_valid_url w u"
  by (auto simp: literal_urls_def split: option.splits if_splits)

lemma when_given_valid:
  "(\<And>p. u \<in> fst (load p) \<Longrightarrow> P) \<Longrightarrow> u \<in> fst (when_given opt load) \<Longrightarrow> P"
  by (auto simp: when_given_def split: option.splits if_splits)

lemma load_from_file_lines_valid:
  "u \<in> fst (load_from_file_lines w p) \<Longrightarrow> is_valid_url w u"
  by (auto simp: load_from_file_lines_def split: option.splits)

lemma load_from_stdin_valid: "u \<in> load_from_stdin w \<Longrightarrow> is_valid_url w u"
  by (auto simp: load_from_stdin_def)

lemma load_from_csv_valid:
  assumes "u \<in> fst (load_from_csv w p column)"
  shows "is_valid_url w u"
proof -
  have "\<forall>u \<in> fold (\<lambda>row urls. let u = csv_cell row column
                                 in if u \<noteq> [] \<and> is_valid_url w u then insert u urls else urls)
                   rows {}. is_valid_url w u" for rows
    by (rule fold_keeps_all) (simp_all add: Let_def)
  then have "\<And>rows. u \<in> fold (\<lambda>row urls. let u = csv_cell row column
                                 in if u \<noteq> [] \<and> is_valid_url w u then insert u urls else urls)
                   rows {} \<Longrightarrow> is_valid_url w u"
    by blast
  with assms show ?thesis
    by (cases "csv_file w p") (auto simp: load_from_csv_def split: if_splits)
qed


lemma key_list_valid:
  "\<forall>u \<in> fold (\<lambda>v urls. case v of
                           JString s \<Rightarrow> if is_valid_url w s then insert s urls else urls
                         | _ \<Rightarrow> urls) vs {}. is_valid_url w u"
  by (rule fold_keeps_all) (simp_all split: json.splits)

lemma key_branch_valid:
  assumes "u \<in> fst (case r of
                      Some (JList vs) \<Rightarrow>
                        (fold (\<lambda>v urls. case v of
                                           JString s \<Rightarrow> if is_valid_url w s then insert s urls else urls
                                         | _ \<Rightarrow> urls) vs {}, [])
                    | Some (JString s) \<Rightarrow> ((if is_valid_url w s then {s} else {}), [])
                    | _ \<Rightarrow> ({}, ([] :: event list)))"
  shows "is_valid_url w u"
proof (cases r)
  case None
  with assms show ?thesis by simp
next
  case (Some j)
  show ?thesis
  proof (cases j)
    case (JList vs)
    with Some assms key_list_valid[of w vs] show ?thesis by simp
  next
    case (JString s)
    with Some assms show ?thesis by (simp split: if_splits)
  qed (use Some assms in simp_all)
qed

lemma tree_walk_valid: "u \<in> collect_urls_any w data {} \<Longrightarrow> is_valid_url w u"
  by (simp add: collect_urls_any_eq)

lemma load_from_json_valid:
  assumes "u \<in> fst (load_from_json w p key)"
  shows "is_valid_url w u"
proof (cases "json_file w p")
  case None
  with assms show ?thesis by (simp add: load_from_json_def)
next
  case (Some r)
  show ?thesis
  proof (cases r)
    case (Inl e)
    with Some assms show ?thesis by (simp add: load_from_json_def)
  next
    case (Inr data)
    show ?thesis
    proof (cases key)
      case None
      with Some Inr assms show ?thesis
        by (simp add: load_from_json_def tree_walk_valid)
    next
      case (Some k)
      show ?thesis
      proof (cases "k = []")
        case True
        with Some \<open>json_file w p = Some r\<close> Inr assms show ?thesis
          by (simp add: load_from_json_def tree_walk_valid)
      next
        case False
        with Some \<open>json_file w p = Some r\<close> Inr assms
        have "u \<in> fst (case get_by_keypath data k of
                      Some (JList vs) \<Rightarrow>
                        (fold (\<lambda>v urls. case v of
                                           JString s \<Rightarrow> if is_valid_url w s then insert s urls else urls
                                         | _ \<Rightarrow> urls) vs {}, [])
                    | Some (JString s) \<Rightarrow> ((if is_valid_url w s then {s} else {}), [])
                    | _ \<Rightarrow> ({}, ([] :: event list)))"
          by (simp add: load_from_json_def)
        then show ?thesis by (rule key_branch_valid)
      qed
    qed
  qed
qed

lemma loc_urls_valid: "u \<in> loc_urls w e \<Longrightarrow> is_valid_url w u"
  by (auto simp: loc_urls_def)

lemma sitemap_parse_valid:
  assumes "u \<in> fst (sitemap_parse w source body evs)"
  shows "is_valid_url w u"
proof (cases "parse_xml w body")
  case (Inl e)
  with assms show ?thesis by (simp add: sitemap_parse_def)
next
  case (Inr root)
  from assms show ?thesis
    unfolding sitemap_parse_eq[OF Inr] by (auto dest: loc_urls_valid)
qed

lemma load_from_sitemap_valid:
  assumes "u \<in> fst (load_from_sitemap w source)"
  shows "is_valid_url w u"
proof (cases "is_valid_url w source")
  case True
  show ?thesis
  proof (cases "http_get w source")
    case (Inl e)
    with True assms show ?thesis by (simp add: load_from_sitemap_def)
  next
    case (Inr resp)
    show ?thesis
    proof (cases "raise_for_status resp")
      case None
      with True Inr assms show ?thesis
        by (simp add: load_from_sitemap_def sitemap_parse_valid)
    next
      case (Some e)
      with True Inr assms show ?thesis by (simp add: load_from_sitemap_def)
    qed
  qed
next
  case False
  show ?thesis
  proof (cases "binary_file w source")
    case None
    with False assms show ?thesis by (simp add: load_from_sitemap_def)
  next
    case (Some r)
    with False assms show ?thesis
      by (cases r) (simp_all add: load_from_sitemap_def sitemap_parse_valid)
  qed
qed


text \<open>
  Claim C6. For every combination of sources, every member of the set returned by
  \<open>collect_urls\<close> is a valid URL, and the set is the union of the sets of the active
  sources: a URL given by several sources, or several times by one, is one member.
\<close>

theorem collect_urls_valid:
  "(\<forall>u \<in> fst (collect_urls w a). is_valid_url w u)
   \<and> fst (collect_urls w a) =
       fst (literal_urls w (arg_urls a))
       \<union> fst (when_given (arg_file a) (load_from_file_lines w))
       \<union> (if arg_stdin a then load_from_stdin w else {})
       \<union> fst (when_given (arg_csv a) (\<lambda>p. load_from_csv w p (arg_csv_column a)))
       \<union> fst (when_given (arg_json a) (\<lambda>p. load_from_json w p (arg_json_key a)))
       \<union> fst (when_given (arg_sitemap a) (load_from_sitemap w))"
proof -
  have eq: "fst (collect_urls w a) =
       fst (literal_urls w (arg_urls a))
       \<union> fst (when_given (arg_file a) (load_from_file_lines w))
       \<union> (if arg_stdin a then load_from_stdin w else {})
       \<union> fst (when_given (arg_csv a) (\<lambda>p. load_from_csv w p (arg_csv_column a)))
       \<union> fst (when_given (arg_json a) (\<lambda>p. load_from_json w p (arg_json_key a)))
       \<union> fst (when_given (arg_sitemap a) (load_from_sitemap w))"
    by (simp add: collect_urls_def Let_def split_beta)
  have "is_valid_url w u" if "u \<in> fst (collect_urls w a)" for u
  proof -
    from that have
      "u \<in> fst (literal_urls w (arg_urls a))
       \<or> u \<in> fst (when_given (arg_file a) (load_from_file_lines w))
       \<or> u \<in> (if arg_stdin a then load_from_stdin w else {})
       \<or> u \<in> fst (when_given (arg_csv a) (\<lambda>p. load_from_csv w p (arg_csv_column a)))
       \<or> u \<in> fst (when_given (arg_json a) (\<lambda>p. load_from_json w p (arg_json_key a)))
       \<or> u \<in> fst (when_given (arg_sitemap a) (load_from_sitemap w))"
      unfolding eq by blast
    then show ?thesis
    proof (elim disjE)
      assume "u \<in> fst (literal_urls w (arg_urls a))"
      then show ?thesis by (rule literal_urls_valid)
    next
      assume h: "u \<in> fst (when_given (arg_file a) (load_from_file_lines w))"
      show ?thesis
        by (rule when_given_valid[OF _ h]) (erule load_from_file_lines_valid)
    next
      assume h: "u \<in> (if arg_stdin a then load_from_stdin w else {})"
      show ?thesis
      proof (cases "arg_stdin a")
        case True
        with h show ?thesis by (simp add: load_from_stdin_valid)
      next
        case False
        with h show ?thesis by simp
      qed
    next
      assume h: "u \<in> fst (when_given (arg_csv a) (\<lambda>p. load_from_csv w p (arg_csv_column a)))"
      show ?thesis
        by (rule when_given_valid[OF _ h]) (erule load_from_csv_valid)
    next
      assume h: "u \<in> fst (when_given (arg_json a) (\<lambda>p. load_from_json w p (arg_json_key a)))"
      show ?thesis
        by (rule when_given_valid[OF _ h]) (erule load_from_json_valid)
    next
      assume h: "u \<in> fst (when_given (arg_sitemap a) (load_from_sitemap w))"
      show ?thesis
        by (rule when_given_valid[OF _ h]) (erule load_from_sitemap_valid)
    qed
  qed
  with eq show ?thesis by blast
qed

theorem collect_urls_valid_witness:
  "collect_urls scenario_a_world scenario_a_args = ({''http://x/a.txt''}, [IgnoredInvalidUrl ''bad''])
   \<and> is_valid_url scenario_a_world ''http://x/a.txt''
   \<and> fst (literal_urls scenario_a_world (arg_urls scenario_a_args)) = {''http://x/a.txt''}
   \<and> fst (load_from_file_lines scenario_a_world ''urls.txt'') = {''http://x/a.txt''}"
proof -
  have e: "collect_urls scenario_a_world scenario_a_args
             = ({''http://x/a.txt''}, [IgnoredInvalidUrl ''bad''])"
    by code_simp
  have l: "fst (literal_urls scenario_a_world (arg_urls scenario_a_args)) = {''http://x/a.txt''}"
    by code_simp
  have f: "fst (load_from_file_lines scenario_a_world ''urls.txt'') = {''http://x/a.txt''}"
    by code_simp
  from collect_urls_valid[of scenario_a_world scenario_a_args] e
  have "is_valid_url scenario_a_world ''http://x/a.txt''" by simp
  with e l f show ?thesis by simp
qed

section \<open>The worker\<close>

lemma mkdir_step_files:
  "files_of (if m q = None then m(q \<mapsto> Dir) else m) = files_of m"
  by (rule ext) (simp add: files_of_def)

lemma fold_mkdir_files:
  "files_of (fold (\<lambda>q m. if m q = None then m(q \<mapsto> Dir) else m) qs d) = files_of d"
proof (induction qs arbitrary: d)
  case Nil
  show ?case by simp
next
  case (Cons q qs)
  have "files_of (fold (\<lambda>q m. if m q = None then m(q \<mapsto> Dir) else m) (q # qs) d)
          = files_of (if d q = None then d(q \<mapsto> Dir) else d)"
    using Cons.IH[of "if d q = None then d(q \<mapsto> Dir) else d"] by simp
  then show ?case by (simp only: mkdir_step_files)
qed

lemma makedirs_files: "makedirs d name = Inr d' \<Longrightarrow> files_of d' = files_of d"
  by (auto simp: makedirs_def fold_mkdir_files split: if_splits)

lemma ensure_dir_files: "ensure_dir d dirpath = Inr d' \<Longrightarrow> files_of d' = files_of d"
  by (auto simp: ensure_dir_def makedirs_files split: if_splits)

lemma ensure_dir_cases:
  "ensure_dir d dirpath = Inr d' \<Longrightarrow> d' = d \<or> makedirs d dirpath = Inr d'"
  by (auto simp: ensure_dir_def split: if_splits)

lemma worker_get_raises:
  assumes "resolve_filepath w url out_dir pp = Inr filepath"
    and "ensure_dir (disk_of st) (posix_dirname filepath) = Inr d"
    and "\<not> (se \<and> os_path_exists d filepath)"
    and "http_get w url = Inl e"
  shows "download_and_save w url out_dir pp se st
           = (None, emit (st\<lparr>disk_of := d\<rparr>) [PrintGet url, HttpGet url, PrintError url e])"
proof -
  from assms(3) have "(if se \<and> os_path_exists d filepath then x else y) = y" for x y :: "exn option \<times> state"
    by auto
  with assms(1,2,4) show ?thesis by (simp add: download_and_save_def)
qed

lemma worker_status_raises:
  assumes "resolve_filepath w url out_dir pp = Inr filepath"
    and "ensure_dir (disk_of st) (posix_dirname filepath) = Inr d"
    and "\<not> (se \<and> os_path_exists d filepath)"
    and "http_get w url = Inr resp"
    and "400 \<le> status_code resp" and "status_code resp < 600"
  shows "download_and_save w url out_dir pp se st
           = (None, emit (st\<lparr>disk_of := d\<rparr>)
                      [PrintGet url, HttpGet url, PrintError url (HTTPError (status_code resp))])"
proof -
  from assms(3) have "(if se \<and> os_path_exists d filepath then x else y) = y" for x y :: "exn option \<times> state"
    by auto
  with assms(1,2,4,5,6) show ?thesis by (simp add: download_and_save_def raise_for_status_def)
qed

lemma worker_skips:
  assumes "resolve_filepath w url out_dir pp = Inr filepath"
    and "ensure_dir (disk_of st) (posix_dirname filepath) = Inr d"
    and "se" and "os_path_exists d filepath"
  shows "download_and_save w url out_dir pp se st
           = (None, emit (st\<lparr>disk_of := d\<rparr>) [PrintSkip filepath])"
  using assms by (simp add: download_and_save_def)

lemma worker_raises_before_try:
  assumes "resolve_filepath w url out_dir pp = Inl e
           \<or> (resolve_filepath w url out_dir pp = Inr filepath
              \<and> ensure_dir (disk_of st) (posix_dirname filepath) = Inl e)"
  shows "download_and_save w url out_dir pp se st = (Some e, st)"
  using assms by (auto simp: download_and_save_def)

lemma run_workers_Cons:
  "run_workers w a (u # rest) st
     = run_workers w a rest
         (snd (download_and_save w u (arg_out a) (arg_preserve_path a) (arg_skip_existing a) st))"
  by (simp add: run_workers_def)


text \<open>
  Claim C3, as amended. Once the worker has resolved the path, ensured the directory and
  not skipped, a GET that raises (a transport error), or that returns a status from 400
  to 599 (the statuses for which \<^verbatim>\<open>raise_for_status\<close> raises), ends in the Failed
  outcome: the worker returns without an exception, having printed \<^verbatim>\<open>[Get]\<close>, issued the
  request and printed \<^verbatim>\<open>[Error]\<close> with the cause, and the coordinator goes on with the
  remaining URLs from that state.
\<close>

theorem fetch_failure_is_reported:
  assumes "resolve_filepath w url (arg_out a) (arg_preserve_path a) = Inr filepath"
    and "ensure_dir (disk_of st) (posix_dirname filepath) = Inr d"
    and "\<not> (arg_skip_existing a \<and> os_path_exists d filepath)"
    and "http_get w url = Inl e
         \<or> (http_get w url = Inr resp \<and> 400 \<le> status_code resp \<and> status_code resp < 600
            \<and> e = HTTPError (status_code resp))"
  shows "download_and_save w url (arg_out a) (arg_preserve_path a) (arg_skip_existing a) st
           = (None, emit (st\<lparr>disk_of := d\<rparr>) [PrintGet url, HttpGet url, PrintError url e])
         \<and> run_workers w a (url # rest) st
           = run_workers w a rest
               (emit (st\<lparr>disk_of := d\<rparr>) [PrintGet url, HttpGet url, PrintError url e])"
proof -
  have "download_and_save w url (arg_out a) (arg_preserve_path a) (arg_skip_existing a) st
           = (None, emit (st\<lparr>disk_of := d\<rparr>) [PrintGet url, HttpGet url, PrintError url e])"
    using assms(4)
  proof
    assume "http_get w url = Inl e"
    with assms(1-3) show ?thesis by (rule worker_get_raises)
  next
    assume h: "http_get w url = Inr resp \<and> 400 \<le> status_code resp \<and> status_code resp < 600
            \<and> e = HTTPError (status_code resp)"
    then have "download_and_save w url (arg_out a) (arg_preserve_path a) (arg_skip_existing a) st
           = (None, emit (st\<lparr>disk_of := d\<rparr>)
                      [PrintGet url, HttpGet url, PrintError url (HTTPError (status_code resp))])"
      using assms(1-3) by (intro worker_status_raises) simp_all
    with h show ?thesis by simp
  qed
  then show ?thesis by (simp add: run_workers_Cons)
qed

theorem fetch_failure_is_reported_witness:
  "resolve_filepath (serving 404 ''gone'') ''http://x/a.txt'' ''out'' False = Inr ''out/a.txt''
   \<and> http_get (serving 404 ''gone'') ''http://x/a.txt'' = Inr \<lparr>status_code = 404, content = ''gone''\<rparr>
   \<and> download_and_save (serving 404 ''gone'') ''http://x/a.txt'' ''out'' False False
        \<lparr>disk_of = old_file_disk, trace = []\<rparr>
      = (None, \<lparr>disk_of = old_file_disk,
                trace = [PrintGet ''http://x/a.txt'', HttpGet ''http://x/a.txt'',
                         PrintError ''http://x/a.txt'' (HTTPError 404)]\<rparr>)"
proof -
  let ?w = "serving 404 ''gone''" and ?a = "run_args [''http://x/a.txt''] False False"
  let ?st = "\<lparr>disk_of = old_file_disk, trace = []\<rparr>"
  have r: "resolve_filepath ?w ''http://x/a.txt'' (arg_out ?a) (arg_preserve_path ?a) = Inr ''out/a.txt''"
    by code_simp
  have dn: "posix_dirname ''out/a.txt'' = ''out''" by code_simp
  have isd: "os_path_isdir old_file_disk ''out''" by code_simp
  have en: "ensure_dir (disk_of ?st) (posix_dirname ''out/a.txt'') = Inr old_file_disk"
    by (simp add: dn ensure_dir_def isd)
  have sk: "\<not> (arg_skip_existing ?a \<and> os_path_exists old_file_disk ''out/a.txt'')"
    by (simp add: run_args_def)
  have g: "http_get ?w ''http://x/a.txt'' = Inr \<lparr>status_code = 404, content = ''gone''\<rparr>"
    by (simp add: serving_def)
  have f: "http_get ?w ''http://x/a.txt'' = Inl (HTTPError 404)
         \<or> (http_get ?w ''http://x/a.txt'' = Inr \<lparr>status_code = 404, content = ''gone''\<rparr>
            \<and> 400 \<le> status_code \<lparr>status_code = 404, content = ''gone''\<rparr>
            \<and> status_code \<lparr>status_code = 404, content = ''gone''\<rparr> < 600
            \<and> HTTPError 404 = HTTPError (status_code \<lparr>status_code = 404, content = ''gone''\<rparr>))"
    using g by simp
  from fetch_failure_is_reported[OF r en sk f, of "[]"] r g
  show ?thesis by (simp add: run_args_def emit_def)
qed

text \<open>
  The claim as stated, for every status outside 200 to 299, fails: a final response with
  status 304 does not make \<^verbatim>\<open>raise_for_status\<close> raise, and the worker saves its body.
\<close>

theorem fetch_failure_status_counterexample:
  "trace (snd (download_and_save (serving 304 ''cached'') ''http://x/a.txt'' ''out'' False False
                 \<lparr>disk_of = out_disk, trace = []\<rparr>))
     = [PrintGet ''http://x/a.txt'', HttpGet ''http://x/a.txt'', PrintSaved ''out/a.txt'']"
  by code_simp


text \<open>
  Claim C9, as amended. When the GET raises or returns a status from 400 to 599, the
  regular files of the disk and their contents are what they were before the worker ran:
  the file at the resolved path is not written. The disk is either unchanged or the
  result of creating the parent directories.
\<close>

theorem failed_fetch_leaves_files:
  assumes "resolve_filepath w url out_dir pp = Inr filepath"
    and "ensure_dir (disk_of st) (posix_dirname filepath) = Inr d"
    and "\<not> (se \<and> os_path_exists d filepath)"
    and "http_get w url = Inl e
         \<or> (http_get w url = Inr resp \<and> 400 \<le> status_code resp \<and> status_code resp < 600)"
  shows "files_of (disk_of (snd (download_and_save w url out_dir pp se st))) = files_of (disk_of st)
         \<and> (disk_of (snd (download_and_save w url out_dir pp se st)) = disk_of st
            \<or> makedirs (disk_of st) (posix_dirname filepath)
                 = Inr (disk_of (snd (download_and_save w url out_dir pp se st))))"
proof -
  have "disk_of (snd (download_and_save w url out_dir pp se st)) = d"
    using assms(4)
  proof
    assume "http_get w url = Inl e"
    with assms(1-3) have "download_and_save w url out_dir pp se st
           = (None, emit (st\<lparr>disk_of := d\<rparr>) [PrintGet url, HttpGet url, PrintError url e])"
      by (rule worker_get_raises)
    then show ?thesis by (simp add: emit_def)
  next
    assume "http_get w url = Inr resp \<and> 400 \<le> status_code resp \<and> status_code resp < 600"
    with assms(1-3) have "download_and_save w url out_dir pp se st
           = (None, emit (st\<lparr>disk_of := d\<rparr>)
                      [PrintGet url, HttpGet url, PrintError url (HTTPError (status_code resp))])"
      by (intro worker_status_raises) simp_all
    then show ?thesis by (simp add: emit_def)
  qed
  with ensure_dir_files[OF assms(2)] ensure_dir_cases[OF assms(2)] show ?thesis by simp
qed

theorem failed_fetch_leaves_files_witness:
  "resolve_filepath offline_world ''http://x/d/e/b.txt'' ''out'' True = Inr ''out/d/e/b.txt''
   \<and> http_get offline_world ''http://x/d/e/b.txt'' = Inl (RequestException ''unreachable'')
   \<and> files_of (disk_of (snd (download_and_save offline_world ''http://x/d/e/b.txt'' ''out'' True False
                                \<lparr>disk_of = old_file_disk, trace = []\<rparr>))) = files_of old_file_disk
   \<and> disk_of (snd (download_and_save offline_world ''http://x/d/e/b.txt'' ''out'' True False
                      \<lparr>disk_of = old_file_disk, trace = []\<rparr>)) ''out/d/e'' = Some Dir
   \<and> disk_of (snd (download_and_save offline_world ''http://x/d/e/b.txt'' ''out'' True False
                      \<lparr>disk_of = old_file_disk, trace = []\<rparr>)) ''out/d/e/b.txt'' = None"
proof -
  let ?st = "\<lparr>disk_of = old_file_disk, trace = []\<rparr>"
  have r: "resolve_filepath offline_world ''http://x/d/e/b.txt'' ''out'' True = Inr ''out/d/e/b.txt''"
    by code_simp
  have "\<not> isl (ensure_dir (disk_of ?st) (posix_dirname ''out/d/e/b.txt''))"
    by code_simp
  then obtain d where en: "ensure_dir (disk_of ?st) (posix_dirname ''out/d/e/b.txt'') = Inr d"
    by (cases "ensure_dir (disk_of ?st) (posix_dirname ''out/d/e/b.txt'')") auto
  have sk: "\<not> (False \<and> os_path_exists d ''out/d/e/b.txt'')" by simp
  have g: "http_get offline_world ''http://x/d/e/b.txt'' = Inl (RequestException ''unreachable'')"
    by (simp add: offline_world_def cpython_world_def)
  then have f: "http_get offline_world ''http://x/d/e/b.txt'' = Inl (RequestException ''unreachable'')
         \<or> (http_get offline_world ''http://x/d/e/b.txt'' = Inr undefined
            \<and> 400 \<le> status_code undefined \<and> status_code undefined < 600)"
    by simp
  have dirs: "disk_of (snd (download_and_save offline_world ''http://x/d/e/b.txt'' ''out'' True False ?st))
                ''out/d/e'' = Some Dir"
    by code_simp
  have nofile: "disk_of (snd (download_and_save offline_world ''http://x/d/e/b.txt'' ''out'' True False ?st))
                ''out/d/e/b.txt'' = None"
    by code_simp
  from failed_fetch_leaves_files[OF r en sk f] r g dirs nofile
  show ?thesis by simp
qed

text \<open>
  The claim as stated, for every status outside 200 to 299, fails: with status 301 as the
  final response the existing file at the resolved path is overwritten.
\<close>

theorem failed_fetch_status_counterexample:
  "old_file_disk ''out/a.txt'' = Some (File ''old'')
   \<and> status_code \<lparr>status_code = 301, content = ''moved''\<rparr> = 301
   \<and> http_get (serving 301 ''moved'') ''http://x/a.txt'' = Inr \<lparr>status_code = 301, content = ''moved''\<rparr>
   \<and> disk_of (snd (download_and_save (serving 301 ''moved'') ''http://x/a.txt'' ''out'' False False
                      \<lparr>disk_of = old_file_disk, trace = []\<rparr>)) ''out/a.txt'' = Some (File ''moved'')"
proof -
  have a: "old_file_disk ''out/a.txt'' = Some (File ''old'')" by (simp add: old_file_disk_def)
  have b: "http_get (serving 301 ''moved'') ''http://x/a.txt'' = Inr \<lparr>status_code = 301, content = ''moved''\<rparr>"
    by (simp add: serving_def)
  have c: "disk_of (snd (download_and_save (serving 301 ''moved'') ''http://x/a.txt'' ''out'' False False
                      \<lparr>disk_of = old_file_disk, trace = []\<rparr>)) ''out/a.txt'' = Some (File ''moved'')"
    by code_simp
  from a b c show ?thesis by simp
qed

text \<open>
  The usual situation of a skip: the target exists before the worker runs and its parent
  is a directory (or the target has no directory part). Then nothing but the \<^verbatim>\<open>[Skip]\<close>
  line happens.
\<close>

lemma skip_existing_prestate:
  assumes "resolve_filepath w url out_dir pp = Inr filepath"
    and "os_path_exists (disk_of st) filepath"
    and "posix_dirname filepath = [] \<or> os_path_isdir (disk_of st) (posix_dirname filepath)"
  shows "download_and_save w url out_dir pp True st = (None, emit st [PrintSkip filepath])"
proof -
  from assms(3) have "ensure_dir (disk_of st) (posix_dirname filepath) = Inr (disk_of st)"
    by (auto simp: ensure_dir_def)
  from worker_skips[OF assms(1) this _ assms(2)] show ?thesis by simp
qed

text \<open>
  Claim C5. With \<open>skip_existing\<close> set, when the resolved path exists at the moment of the
  check (after the directory has been ensured), the worker returns normally with the
  Skipped outcome: the only event it adds is the \<^verbatim>\<open>[Skip]\<close> line, so no GET is issued for
  the URL, and no file is written.
\<close>

theorem skip_existing_no_get:
  assumes "resolve_filepath w url out_dir pp = Inr filepath"
    and "ensure_dir (disk_of st) (posix_dirname filepath) = Inr d"
    and "skip_existing" and "os_path_exists d filepath"
  shows "download_and_save w url out_dir pp skip_existing st
           = (None, st\<lparr>disk_of := d, trace := trace st @ [PrintSkip filepath]\<rparr>)
         \<and> HttpGet url \<notin> set (drop (length (trace st))
                                  (trace (snd (download_and_save w url out_dir pp skip_existing st))))"
  using worker_skips[OF assms] by (simp add: emit_def)

theorem skip_existing_no_get_witness:
  "resolve_filepath (serving 200 ''new'') ''http://x/a.txt'' ''out'' False = Inr ''out/a.txt''
   \<and> os_path_exists old_file_disk ''out/a.txt''
   \<and> download_and_save (serving 200 ''new'') ''http://x/a.txt'' ''out'' False True
        \<lparr>disk_of = old_file_disk, trace = []\<rparr>
      = (None, \<lparr>disk_of = old_file_disk, trace = [PrintSkip ''out/a.txt'']\<rparr>)
   \<and> trace (snd (download_and_save (serving 200 ''new'') ''http://x/a.txt'' ''out'' False False
        \<lparr>disk_of = old_file_disk, trace = []\<rparr>))
      = [PrintGet ''http://x/a.txt'', HttpGet ''http://x/a.txt'', PrintSaved ''out/a.txt'']"
proof -
  let ?w = "serving 200 ''new''"
  let ?st = "\<lparr>disk_of = old_file_disk, trace = []\<rparr>"
  have r: "resolve_filepath ?w ''http://x/a.txt'' ''out'' False = Inr ''out/a.txt''"
    by code_simp
  have dn: "posix_dirname ''out/a.txt'' = ''out''" by code_simp
  have isd: "os_path_isdir old_file_disk ''out''" by code_simp
  have en: "ensure_dir (disk_of ?st) (posix_dirname ''out/a.txt'') = Inr old_file_disk"
    by (simp add: dn ensure_dir_def isd)
  have ex: "os_path_exists old_file_disk ''out/a.txt''" by code_simp
  have noskip: "trace (snd (download_and_save ?w ''http://x/a.txt'' ''out'' False False ?st))
      = [PrintGet ''http://x/a.txt'', HttpGet ''http://x/a.txt'', PrintSaved ''out/a.txt'']"
    by code_simp
  from skip_existing_no_get[OF r en TrueI ex] r ex noskip show ?thesis by simp
qed


text \<open>
  Claim C10. Path resolution and directory creation stand before the \<^verbatim>\<open>try\<close>: when
  \<open>resolve_filepath\<close> raises, or the directory block raises (a regular file where a
  directory is needed), the exception leaves \<open>download_and_save\<close> with the state
  untouched, so nothing is printed for the URL, and the coordinator, which never reads the
  futures, continues with the remaining URLs as if that URL had not been there.
\<close>

theorem exception_before_try_is_silent:
  assumes "resolve_filepath w url (arg_out a) (arg_preserve_path a) = Inl e
           \<or> (resolve_filepath w url (arg_out a) (arg_preserve_path a) = Inr filepath
              \<and> ensure_dir (disk_of st) (posix_dirname filepath) = Inl e)"
  shows "download_and_save w url (arg_out a) (arg_preserve_path a) (arg_skip_existing a) st
           = (Some e, st)
         \<and> run_workers w a (url # rest) st = run_workers w a rest st"
proof -
  from assms
  have "download_and_save w url (arg_out a) (arg_preserve_path a) (arg_skip_existing a) st
           = (Some e, st)"
    by (rule worker_raises_before_try)
  then show ?thesis by (simp add: run_workers_Cons)
qed

theorem exception_before_try_is_silent_witness:
  "resolve_filepath (serving 200 ''new'') ''http://x/a/b.txt'' ''out'' True = Inr ''out/a/b.txt''
   \<and> ensure_dir collision_disk (posix_dirname ''out/a/b.txt'') = Inl FileExistsError
   \<and> download_and_save (serving 200 ''new'') ''http://x/a/b.txt'' ''out'' True False
        \<lparr>disk_of = collision_disk, trace = []\<rparr>
      = (Some FileExistsError, \<lparr>disk_of = collision_disk, trace = []\<rparr>)
   \<and> fst (main (serving 200 ''new'') (run_args [''http://x/a/b.txt'', ''http://x/c.txt''] True False)
             [''http://x/a/b.txt'', ''http://x/c.txt''] \<lparr>disk_of = collision_disk, trace = []\<rparr>) = None
   \<and> trace (snd (main (serving 200 ''new'') (run_args [''http://x/a/b.txt'', ''http://x/c.txt''] True False)
             [''http://x/a/b.txt'', ''http://x/c.txt''] \<lparr>disk_of = collision_disk, trace = []\<rparr>))
      = [Downloading 2 6, PrintGet ''http://x/c.txt'', HttpGet ''http://x/c.txt'',
         PrintSaved ''out/c.txt'', AllCompleted]"
proof -
  let ?w = "serving 200 ''new''"
  let ?a = "run_args [''http://x/a/b.txt'', ''http://x/c.txt''] True False"
  let ?st = "\<lparr>disk_of = collision_disk, trace = []\<rparr>"
  have r: "resolve_filepath ?w ''http://x/a/b.txt'' (arg_out ?a) (arg_preserve_path ?a)
             = Inr ''out/a/b.txt''"
    by code_simp
  have "isl (ensure_dir collision_disk (posix_dirname ''out/a/b.txt''))"
    and "projl (ensure_dir collision_disk (posix_dirname ''out/a/b.txt'')) = FileExistsError"
    by code_simp+
  then have en: "ensure_dir collision_disk (posix_dirname ''out/a/b.txt'') = Inl FileExistsError"
    by (cases "ensure_dir collision_disk (posix_dirname ''out/a/b.txt'')") auto
  then have h: "resolve_filepath ?w ''http://x/a/b.txt'' (arg_out ?a) (arg_preserve_path ?a)
                  = Inl FileExistsError
           \<or> (resolve_filepath ?w ''http://x/a/b.txt'' (arg_out ?a) (arg_preserve_path ?a)
                 = Inr ''out/a/b.txt''
              \<and> ensure_dir (disk_of ?st) (posix_dirname ''out/a/b.txt'') = Inl FileExistsError)"
    using r by simp
  have m1: "fst (main ?w ?a [''http://x/a/b.txt'', ''http://x/c.txt''] ?st) = None"
    by code_simp
  have m2: "trace (snd (main ?w ?a [''http://x/a/b.txt'', ''http://x/c.txt''] ?st))
      = [Downloading 2 6, PrintGet ''http://x/c.txt'', HttpGet ''http://x/c.txt'',
         PrintSaved ''out/c.txt'', AllCompleted]"
    by code_simp
  from exception_before_try_is_silent[OF h, of "[]"] r en m1 m2
  show ?thesis by (simp add: run_args_def)
qed

section \<open>The coordinator on an empty working set\<close>

text \<open>
  Claim C4. When the aggregated set is empty, \<open>main\<close> returns normally after the
  diagnostics of the extractors and the line \<^verbatim>\<open>No URLs provided.\<close>: the disk is unchanged
  (the output directory is not created) and no worker runs, whatever the schedule.
\<close>

theorem empty_set_stops_run:
  assumes "fst (collect_urls w a) = {}"
  shows "main w a sched st
           = (None, st\<lparr>trace := trace st @ snd (collect_urls w a) @ [NoUrlsProvided]\<rparr>)
         \<and> disk_of (snd (main w a sched st)) = disk_of st"
  using assms by (simp add: main_def emit_def split_beta Let_def)

theorem empty_set_stops_run_witness:
  "collect_urls (serving 200 ''new'') (run_args [''bad''] False False) = ({}, [IgnoredInvalidUrl ''bad''])
   \<and> main (serving 200 ''new'') (run_args [''bad''] False False) [''http://x/a.txt'']
        \<lparr>disk_of = Map.empty, trace = []\<rparr>
      = (None, \<lparr>disk_of = Map.empty, trace = [IgnoredInvalidUrl ''bad'', NoUrlsProvided]\<rparr>)"
proof -
  have c: "collect_urls (serving 200 ''new'') (run_args [''bad''] False False)
             = ({}, [IgnoredInvalidUrl ''bad''])"
    by code_simp
  then have e: "fst (collect_urls (serving 200 ''new'') (run_args [''bad''] False False)) = {}"
    by simp
  from empty_set_stops_run[OF e, of "[''http://x/a.txt'']" "\<lparr>disk_of = Map.empty, trace = []\<rparr>"] c
  show ?thesis by simp
qed

end
